theory Spec2Isabelle
  imports Main
begin

chapter \<open>nih-dbus-tool: property parsing and stub generation (property.c)\<close>

text \<open>
  The development embeds \<^verbatim>\<open>property.c\<close> of nih-dbus-tool: the member name validator,
  the \<^verbatim>\<open>Property\<close> constructor over the hierarchical allocator, the handlers of the
  \<^verbatim>\<open><property>\<close> start and end tags, and the four generators of property stubs.
  The generators emit C; the emitted C is represented as a syntax tree of a small
  imperative language, and an interpreter gives that tree its meaning against an
  oracle that answers every call of a library function.
\<close>

section \<open>Definitions\<close>

subsection \<open>Member names\<close>

text \<open>
  A C string is the list of the bytes before its terminating NUL, so \<^verbatim>\<open>strlen\<close> is
  \<^const>\<open>length\<close>. The comparisons of \<^verbatim>\<open>property_name_valid\<close> are on \<^verbatim>\<open>char\<close>, which is
  signed on the platforms the tool is built for: \<open>cchar\<close> is the value of a byte as a
  signed char.
\<close>

definition cchar :: "char \<Rightarrow> int" where
  "cchar c = (let n = int (of_char c :: nat) in if n < 128 then n else n - 256)"

text \<open>
  The loop of \<^verbatim>\<open>property_name_valid\<close>, from index \<open>i\<close>: \<open>False\<close> when the loop returns
  \<^verbatim>\<open>FALSE\<close>, \<open>True\<close> when it runs to the end of the string.
\<close>

function name_valid_loop :: "string \<Rightarrow> nat \<Rightarrow> bool" where
  "name_valid_loop name i =
     (if i < length name then
        (if cchar (name ! i) \<ge> cchar CHR ''0'' \<and> cchar (name ! i) \<le> cchar CHR ''9'' then
           (if i = 0 then False else name_valid_loop name (Suc i))
         else if (cchar (name ! i) < cchar CHR ''A'' \<or> cchar (name ! i) > cchar CHR ''Z'')
               \<and> (cchar (name ! i) < cchar CHR ''a'' \<or> cchar (name ! i) > cchar CHR ''z'')
               \<and> cchar (name ! i) \<noteq> cchar CHR ''_'' then False
         else name_valid_loop name (Suc i))
      else True)"
  by pat_completeness auto
termination
  by (relation "measure (\<lambda>(name, i). length name - i)") auto

definition property_name_valid :: "string \<Rightarrow> bool" where
  "property_name_valid name =
     (if \<not> name_valid_loop name 0 then False
      else if length name < 1 \<or> length name > 255 then False
      else True)"

text \<open>
  The specification's side: the regular expression \<^verbatim>\<open>[A-Za-z_][A-Za-z0-9_]*\<close> read as a
  matcher, and the bound on the length.
\<close>

definition is_upper :: "char \<Rightarrow> bool" where
  "is_upper c = (65 \<le> (of_char c :: nat) \<and> (of_char c :: nat) \<le> 90)"

definition is_lower :: "char \<Rightarrow> bool" where
  "is_lower c = (97 \<le> (of_char c :: nat) \<and> (of_char c :: nat) \<le> 122)"

definition is_digit :: "char \<Rightarrow> bool" where
  "is_digit c = (48 \<le> (of_char c :: nat) \<and> (of_char c :: nat) \<le> 57)"

definition name_start :: "char \<Rightarrow> bool" where
  "name_start c = (is_upper c \<or> is_lower c \<or> c = CHR ''_'')"

definition name_char :: "char \<Rightarrow> bool" where
  "name_char c = (name_start c \<or> is_digit c)"

fun name_tail :: "string \<Rightarrow> bool" where
  "name_tail [] = True"
| "name_tail (c # cs) = (name_char c \<and> name_tail cs)"

fun name_regex :: "string \<Rightarrow> bool" where
  "name_regex [] = False"
| "name_regex (c # cs) = (name_start c \<and> name_tail cs)"

definition member_name_spec :: "string \<Rightarrow> bool" where
  "member_name_spec s = (name_regex s \<and> 1 \<le> length s \<and> length s \<le> 255)"

text \<open>What one pass of the loop accepts at index \<open>i\<close>.\<close>

definition char_ok :: "nat \<Rightarrow> char \<Rightarrow> bool" where
  "char_ok i c = (if is_digit c then i \<noteq> 0 else name_start c)"

subsection \<open>The hierarchical allocator (nih/alloc.c)\<close>

text \<open>
  An address is a natural number and \<open>NULL\<close> is 0. The allocator's state is the list of
  the live blocks, each with its parent (the \<^verbatim>\<open>parent\<close> of its \<^verbatim>\<open>NihAllocCtx\<close>, \<open>NULL\<close> for
  none), the highest address handed out, and the number of calls made of the underlying
  allocator. Whether that allocator returns memory is not in the program's hands: the
  parameter \<open>avail\<close> says, for each of its calls, whether it succeeds.
\<close>

type_synonym ptr = nat

definition NULL :: ptr where
  "NULL = 0"

record nih_heap =
  live :: "(ptr \<times> ptr) list"
  brk :: ptr
  calls :: nat

definition nih_alloc :: "(nat \<Rightarrow> bool) \<Rightarrow> nih_heap \<Rightarrow> ptr \<Rightarrow> ptr \<times> nih_heap" where
  "nih_alloc avail h parent =
     (if avail (calls h) then
        (Suc (brk h),
         h\<lparr>live := live h @ [(Suc (brk h), parent)], brk := Suc (brk h), calls := Suc (calls h)\<rparr>)
      else (NULL, h\<lparr>calls := Suc (calls h)\<rparr>))"

text \<open>
  \<^verbatim>\<open>nih_free\<close> frees a block and, through the lists of children, every block below it:
  \<open>family n bs ps\<close> adds to \<open>ps\<close> the blocks of \<open>bs\<close> within \<open>n\<close> generations below.
\<close>

fun family :: "nat \<Rightarrow> (ptr \<times> ptr) list \<Rightarrow> ptr list \<Rightarrow> ptr list" where
  "family 0 bs ps = ps"
| "family (Suc n) bs ps =
     family n bs (ps @ map fst (filter (\<lambda>(b, par). par \<in> set ps \<and> b \<notin> set ps) bs))"

definition nih_free :: "nih_heap \<Rightarrow> ptr \<Rightarrow> nih_heap" where
  "nih_free h p =
     h\<lparr>live := filter (\<lambda>(b, par). b \<notin> set (family (length (live h)) (live h) [p])) (live h)\<rparr>"

text \<open>
  A string of the allocator is its block's address together with its bytes (the code
  never writes to a string once made). \<^verbatim>\<open>nih_strdup\<close> allocates a block below \<open>parent\<close>
  and copies the string into it.
\<close>

record nih_str =
  addr :: ptr
  chars :: string

definition nih_strdup ::
  "(nat \<Rightarrow> bool) \<Rightarrow> nih_heap \<Rightarrow> ptr \<Rightarrow> string \<Rightarrow> nih_str option \<times> nih_heap" where
  "nih_strdup avail h parent str =
     (case nih_alloc avail h parent of
        (p, h') \<Rightarrow> (if p = NULL then None else Some \<lparr>addr = p, chars = str\<rparr>, h'))"

text \<open>Every address of the heap is one the allocator has handed out.\<close>

definition heap_ok :: "nih_heap \<Rightarrow> bool" where
  "heap_ok h = list_all (\<lambda>(b, par). b \<le> brk h \<and> par \<le> brk h) (live h)"

definition heap0 :: nih_heap where
  "heap0 = \<lparr>live = [], brk = 0, calls = 0\<rparr>"

subsection \<open>Properties (property.h, property\_new)\<close>

text \<open>
  A list head or entry of \<^verbatim>\<open>NihList\<close>: the addresses of its neighbours. The entry of a
  \<^verbatim>\<open>Property\<close> is the structure's first member, so its address is the property's.
\<close>

record NihList =
  prev :: ptr
  "next" :: ptr

definition nih_list_init :: "ptr \<Rightarrow> NihList" where
  "nih_list_init e = \<lparr>prev = e, next = e\<rparr>"

definition NIH_LIST_EMPTY :: "ptr \<Rightarrow> NihList \<Rightarrow> bool" where
  "NIH_LIST_EMPTY e l = (next l = e)"

datatype NihDBusAccess = NIH_DBUS_READ | NIH_DBUS_WRITE | NIH_DBUS_READWRITE

record Property =
  entry :: NihList
  name :: nih_str
  symbol :: "nih_str option"
  type :: nih_str
  access :: NihDBusAccess
  deprecated :: bool

text \<open>
  \<^verbatim>\<open>property_new\<close>: the new property's address and value, or \<open>None\<close> for \<^verbatim>\<open>NULL\<close>; a failed
  duplication frees the property allocated so far.
\<close>

definition property_new ::
  "(nat \<Rightarrow> bool) \<Rightarrow> nih_heap \<Rightarrow> ptr \<Rightarrow> string \<Rightarrow> string \<Rightarrow> NihDBusAccess
     \<Rightarrow> (ptr \<times> Property) option \<times> nih_heap" where
  "property_new avail h parent name' type' access' =
     (case nih_alloc avail h parent of
        (property, h1) \<Rightarrow>
          if property = NULL then (None, h1)
          else
            (case nih_strdup avail h1 property name' of
               (None, h2) \<Rightarrow> (None, nih_free h2 property)
             | (Some n, h2) \<Rightarrow>
                 (case nih_strdup avail h2 property type' of
                    (None, h3) \<Rightarrow> (None, nih_free h3 property)
                  | (Some t, h3) \<Rightarrow>
                      (Some (property,
                         \<lparr>entry = nih_list_init property, name = n, symbol = None, type = t,
                          access = access', deprecated = False\<rparr>), h3))))"

subsection \<open>The parse stack and the property tags (property\_start\_tag, property\_end\_tag)\<close>

text \<open>
  The errors the functions of \<^verbatim>\<open>property.c\<close> raise. \<open>PROPERTY_INVALID_TYPE\<close> carries the
  message of the signature validator, \<open>PROPERTY_DUPLICATE_SYMBOL\<close> the symbol and the
  name of the property that holds it already.
\<close>

datatype nih_error =
    ENOMEM
  | PROPERTY_MISSING_NAME
  | PROPERTY_INVALID_NAME
  | PROPERTY_MISSING_TYPE
  | PROPERTY_INVALID_TYPE string
  | PROPERTY_MISSING_ACCESS
  | PROPERTY_ILLEGAL_ACCESS
  | PROPERTY_DUPLICATE_SYMBOL string string
  | PROPERTY_ILLEGAL_DEPRECATED
  | PROPERTY_INVALID_SYMBOL
  | PROPERTY_UNKNOWN_ANNOTATION string string

text \<open>
  Modelled from the spec: the \<^verbatim>\<open>Interface\<close> structure (\<^verbatim>\<open>interface.h\<close> is not among the
  sources). The spec gives an interface a name, an optional symbol, a deprecated flag and
  ordered collections of members; of the collections only the properties are used here.
\<close>

record Interface =
  iname :: string
  isymbol :: "string option"
  ideprecated :: bool
  properties :: "Property list"

text \<open>
  An entry of the parse stack is a tagged union (\<^verbatim>\<open>parse.h\<close> is not among the sources; the
  tags are those the tests and the spec name). The entry of a property holds the
  property's address with its value: the address is the parent of the symbol allocated
  at the end tag. The head of the list is the top of the stack.
\<close>

datatype ParseStack =
    PARSE_IGNORED
  | PARSE_NODE
  | PARSE_INTERFACE Interface
  | PARSE_METHOD
  | PARSE_SIGNAL
  | PARSE_PROPERTY ptr Property
  | PARSE_ARGUMENT

text \<open>
  The parse context: the stack, the allocator, the warnings printed by \<^verbatim>\<open>nih_warn\<close> (less
  their position prefix) and the error raised last. The ownership moves of the stack
  (\<^verbatim>\<open>nih_ref\<close>, freeing a popped entry) belong to the allocator and are left out; the heap
  of the context records the allocations.
\<close>

record ParseContext =
  stack :: "ParseStack list"
  heap :: nih_heap
  warnings :: "string list"
  raised :: "nih_error option"

definition parse_stack_top :: "ParseStack list \<Rightarrow> ParseStack option" where
  "parse_stack_top st = (case st of [] \<Rightarrow> None | e # _ \<Rightarrow> Some e)"

text \<open>
  Modelled from the spec: \<^verbatim>\<open>parse_stack_push\<close> (\<^verbatim>\<open>parse.c\<close> is not among the sources) allocates
  an entry and pushes it onto the stack; it returns \<^verbatim>\<open>NULL\<close>, here \<open>False\<close>, when the
  allocation fails.
\<close>

definition parse_stack_push ::
  "(nat \<Rightarrow> bool) \<Rightarrow> ParseContext \<Rightarrow> ParseStack \<Rightarrow> bool \<times> ParseContext" where
  "parse_stack_push avail ctx e =
     (case nih_alloc avail (heap ctx) NULL of
        (p, h') \<Rightarrow>
          if p = NULL then (False, ctx\<lparr>heap := h'\<rparr>)
          else (True, ctx\<lparr>stack := e # stack ctx, heap := h'\<rparr>))"

definition nih_warn :: "string \<Rightarrow> ParseContext \<Rightarrow> ParseContext" where
  "nih_warn msg ctx = ctx\<lparr>warnings := warnings ctx @ [msg]\<rparr>"

definition nih_error_raise :: "nih_error \<Rightarrow> ParseContext \<Rightarrow> ParseContext" where
  "nih_error_raise e ctx = ctx\<lparr>raised := Some e\<rparr>"

text \<open>
  The attributes are the pairs of the NULL-terminated array \<^verbatim>\<open>attr\<close>. The loop of
  \<^verbatim>\<open>property_start_tag\<close> keeps the last value of each known key and warns about every
  other key.
\<close>

record property_attrs =
  attr_name :: "string option"
  attr_type :: "string option"
  attr_access :: "string option"

fun retrieve_attrs ::
  "(string \<times> string) list \<Rightarrow> property_attrs \<Rightarrow> ParseContext \<Rightarrow> property_attrs \<times> ParseContext" where
  "retrieve_attrs [] a ctx = (a, ctx)"
| "retrieve_attrs ((key, val) # rest) a ctx =
     (if key = ''name'' then retrieve_attrs rest (a\<lparr>attr_name := Some val\<rparr>) ctx
      else if key = ''type'' then retrieve_attrs rest (a\<lparr>attr_type := Some val\<rparr>) ctx
      else if key = ''access'' then retrieve_attrs rest (a\<lparr>attr_access := Some val\<rparr>) ctx
      else retrieve_attrs rest a
             (nih_warn (''Ignored unknown <property> attribute: '' @ key) ctx))"

text \<open>
  \<^verbatim>\<open>property_start_tag\<close>. The validator of libdbus, \<^verbatim>\<open>dbus_signature_validate_single\<close>, is
  the parameter \<open>validate\<close>: \<open>None\<close> for a valid single complete type, the error's message
  otherwise. The result is the value returned and the context left behind.
\<close>

definition property_start_tag ::
  "(nat \<Rightarrow> bool) \<Rightarrow> (string \<Rightarrow> string option) \<Rightarrow> ParseContext \<Rightarrow> (string \<times> string) list
     \<Rightarrow> int \<times> ParseContext" where
  "property_start_tag avail validate context attr =
     (case parse_stack_top (stack context) of
        Some (PARSE_INTERFACE interface) \<Rightarrow>
          (case retrieve_attrs attr \<lparr>attr_name = None, attr_type = None, attr_access = None\<rparr> context of
             (a, ctx) \<Rightarrow>
               (case attr_name a of
                  None \<Rightarrow> (-1, nih_error_raise PROPERTY_MISSING_NAME ctx)
                | Some name' \<Rightarrow>
                    if \<not> property_name_valid name' then
                      (-1, nih_error_raise PROPERTY_INVALID_NAME ctx)
                    else
                      (case attr_type a of
                         None \<Rightarrow> (-1, nih_error_raise PROPERTY_MISSING_TYPE ctx)
                       | Some type' \<Rightarrow>
                           (case validate type' of
                              Some message \<Rightarrow>
                                (-1, nih_error_raise (PROPERTY_INVALID_TYPE message) ctx)
                            | None \<Rightarrow>
                                (case attr_access a of
                                   None \<Rightarrow> (-1, nih_error_raise PROPERTY_MISSING_ACCESS ctx)
                                 | Some access_str \<Rightarrow>
                                     (case (if access_str = ''read'' then Some NIH_DBUS_READ
                                            else if access_str = ''write'' then Some NIH_DBUS_WRITE
                                            else if access_str = ''readwrite''
                                              then Some NIH_DBUS_READWRITE
                                            else None) of
                                        None \<Rightarrow> (-1, nih_error_raise PROPERTY_ILLEGAL_ACCESS ctx)
                                      | Some access' \<Rightarrow>
                                          (case property_new avail (heap ctx) NULL name' type' access' of
                                             (None, h') \<Rightarrow>
                                               (-1, nih_error_raise ENOMEM (ctx\<lparr>heap := h'\<rparr>))
                                           | (Some (p, property), h') \<Rightarrow>
                                               (case parse_stack_push avail (ctx\<lparr>heap := h'\<rparr>)
                                                       (PARSE_PROPERTY p property) of
                                                  (False, ctx') \<Rightarrow>
                                                    (-1, nih_error_raise ENOMEM
                                                           (ctx'\<lparr>heap := nih_free (heap ctx') p\<rparr>))
                                                | (True, ctx') \<Rightarrow> (0, ctx')))))))))
      | _ \<Rightarrow>
          (case parse_stack_push avail
                  (nih_warn ''Ignored unexpected <property> tag'' context) PARSE_IGNORED of
             (False, ctx') \<Rightarrow> (-1, nih_error_raise ENOMEM ctx')
           | (True, ctx') \<Rightarrow> (0, ctx')))"

text \<open>
  Modelled from the spec: \<^verbatim>\<open>interface_lookup_property\<close> (\<^verbatim>\<open>interface.c\<close> is not among the
  sources) finds the property of the interface that has the given symbol, \<open>None\<close> when
  there is none. A property without a symbol matches nothing.
\<close>

definition has_symbol :: "string \<Rightarrow> Property \<Rightarrow> bool" where
  "has_symbol symb p = (case symbol p of None \<Rightarrow> False | Some s \<Rightarrow> chars s = symb)"

definition interface_lookup_property :: "Interface \<Rightarrow> string \<Rightarrow> Property option" where
  "interface_lookup_property interface symb = find (has_symbol symb) (properties interface)"

text \<open>
  \<^verbatim>\<open>property_end_tag\<close>. \<^verbatim>\<open>symbol_from_name\<close> (\<^verbatim>\<open>symbol.c\<close> is not among the sources) is
  the parameter \<open>symbol_from_name\<close>, the text of the derived symbol; its result is
  allocated with the property as parent. \<open>None\<close> is a failed assertion of the function
  (the top of the stack is no property, or the entry below it no interface).
\<close>

definition property_end_tag ::
  "(nat \<Rightarrow> bool) \<Rightarrow> (string \<Rightarrow> string) \<Rightarrow> ParseContext \<Rightarrow> (int \<times> ParseContext) option" where
  "property_end_tag avail symbol_from_name context =
     (case stack context of
        PARSE_PROPERTY p property # rest \<Rightarrow>
          (case (case symbol property of
                   Some s \<Rightarrow> (Some s, heap context)
                 | None \<Rightarrow>
                     nih_strdup avail (heap context) p (symbol_from_name (chars (name property))))
           of
             (None, h') \<Rightarrow> Some (-1, nih_error_raise ENOMEM (context\<lparr>heap := h'\<rparr>))
           | (Some symb, h') \<Rightarrow>
               (case rest of
                  PARSE_INTERFACE interface # below \<Rightarrow>
                    (case interface_lookup_property interface (chars symb) of
                       Some conflict \<Rightarrow>
                         Some (-1,
                           nih_error_raise
                             (PROPERTY_DUPLICATE_SYMBOL (chars symb) (chars (name conflict)))
                             (context\<lparr>stack := rest, heap := h'\<rparr>))
                     | None \<Rightarrow>
                         Some (0,
                           context\<lparr>stack :=
                               PARSE_INTERFACE
                                 (interface\<lparr>properties :=
                                    properties interface @ [property\<lparr>symbol := Some symb\<rparr>]\<rparr>)
                               # below,
                             heap := h'\<rparr>))
                | _ \<Rightarrow> None))
      | _ \<Rightarrow> None)"

text \<open>The symbols of the properties attached to an interface, in order.\<close>

definition property_symbols :: "Interface \<Rightarrow> string list" where
  "property_symbols interface =
     List.map_filter (\<lambda>p. map_option chars (symbol p)) (properties interface)"

text \<open>
  The specification's side of the start tag: the value an attribute list gives a key
  (the last one, should the key be repeated), whether the tag is inside an interface,
  and what makes the attributes of a property invalid.
\<close>

fun attr_value :: "string \<Rightarrow> (string \<times> string) list \<Rightarrow> string option" where
  "attr_value k [] = None"
| "attr_value k ((k', v) # rest) =
     (case attr_value k rest of Some x \<Rightarrow> Some x | None \<Rightarrow> if k' = k then Some v else None)"

definition in_interface :: "ParseContext \<Rightarrow> bool" where
  "in_interface ctx = (case stack ctx of PARSE_INTERFACE _ # _ \<Rightarrow> True | _ \<Rightarrow> False)"

definition name_invalid :: "(string \<times> string) list \<Rightarrow> bool" where
  "name_invalid attr =
     (case attr_value ''name'' attr of None \<Rightarrow> True | Some n \<Rightarrow> \<not> property_name_valid n)"

definition type_invalid :: "(string \<Rightarrow> string option) \<Rightarrow> (string \<times> string) list \<Rightarrow> bool" where
  "type_invalid validate attr =
     (case attr_value ''type'' attr of None \<Rightarrow> True | Some t \<Rightarrow> validate t \<noteq> None)"

definition access_invalid :: "(string \<times> string) list \<Rightarrow> bool" where
  "access_invalid attr =
     (case attr_value ''access'' attr of
        None \<Rightarrow> True
      | Some a \<Rightarrow> a \<noteq> ''read'' \<and> a \<noteq> ''write'' \<and> a \<noteq> ''readwrite'')"

definition known_attr :: "string \<times> string \<Rightarrow> bool" where
  "known_attr kv = (fst kv = ''name'' \<or> fst kv = ''type'' \<or> fst kv = ''access'')"

definition unknown_warnings :: "(string \<times> string) list \<Rightarrow> string list" where
  "unknown_warnings attr =
     map (\<lambda>kv. ''Ignored unknown <property> attribute: '' @ fst kv)
       (filter (\<lambda>kv. \<not> known_attr kv) attr)"

subsection \<open>The emitted C and its meaning\<close>

text \<open>
  The generators build C text with format strings. Here the text is kept as its syntax
  tree: the statements and expressions that occur in the stubs of \<^verbatim>\<open>property.c\<close>.
  An argument of a call is kept as written: \<open>Arg\<close> for an expression, \<open>Lit\<close> for a string
  literal. Comments and declarations carry no meaning and are left out; the macros
  \<^verbatim>\<open>nih_return_error\<close> and \<^verbatim>\<open>nih_return_no_memory_error\<close> are kept expanded.
\<close>

datatype arg = Arg string | Lit string

datatype expr =
    ENum int
  | EVar string
  | EStr string
  | ECall string "arg list"
  | ENot expr
  | ENe expr expr
  | ELt expr expr

datatype stmt =
    SExpr expr
  | SAssign string expr
  | SIf expr "stmt list" "stmt list"
  | SReturn int
  | SGoto string
  | SLabel string
  | SDoWhile "stmt list" expr

text \<open>
  A run of a stub keeps the values of the scalar variables (a pointer is null when it
  is 0) and the calls made so far, each with the value it returned. What a library or
  handler function returns is not decided by the stub: the oracle \<open>ora\<close> gives the value
  returned by the call that is the \<open>i\<close>-th of the run.
\<close>

type_synonym event = "string \<times> arg list \<times> int"

record state =
  store :: "string \<Rightarrow> int"
  trace :: "event list"

datatype exit = Fall | Ret int | Jump string

fun eval :: "(nat \<Rightarrow> int) \<Rightarrow> expr \<Rightarrow> state \<Rightarrow> int \<times> state" where
  "eval ora (ENum k) s = (k, s)"
| "eval ora (EVar x) s = (store s x, s)"
| "eval ora (EStr str) s = (1, s)"
| "eval ora (ECall f as) s =
     (let r = ora (length (trace s)) in (r, s\<lparr>trace := trace s @ [(f, as, r)]\<rparr>))"
| "eval ora (ENot e) s = (let (v, s') = eval ora e s in (if v = 0 then 1 else 0, s'))"
| "eval ora (ENe a b) s =
     (let (v, s') = eval ora a s; (w, s'') = eval ora b s' in (if v \<noteq> w then 1 else 0, s''))"
| "eval ora (ELt a b) s =
     (let (v, s') = eval ora a s; (w, s'') = eval ora b s' in (if v < w then 1 else 0, s''))"

text \<open>
  A statement falls through, returns, or jumps to a label. A jump skips forward in the
  enclosing statement lists to its label (the stubs have forward jumps only):
  \<open>exec_list\<close> carries the label being looked for. A loop may not end, so a run has fuel,
  spent by the iterations of loops; \<open>None\<close> is a run that is out of fuel.
\<close>

fun exec :: "(nat \<Rightarrow> int) \<Rightarrow> nat \<Rightarrow> stmt \<Rightarrow> state \<Rightarrow> (exit \<times> state) option"
and exec_list ::
  "(nat \<Rightarrow> int) \<Rightarrow> nat \<Rightarrow> stmt list \<Rightarrow> string option \<Rightarrow> state \<Rightarrow> (exit \<times> state) option"
where
  "exec ora n (SExpr e) s = Some (Fall, snd (eval ora e s))"
| "exec ora n (SAssign x e) s =
     (let (v, s') = eval ora e s in Some (Fall, s'\<lparr>store := (store s')(x := v)\<rparr>))"
| "exec ora n (SIf c a b) s =
     (let (v, s') = eval ora c s in
      if v \<noteq> 0 then exec_list ora n a None s' else exec_list ora n b None s')"
| "exec ora n (SReturn r) s = Some (Ret r, s)"
| "exec ora n (SGoto l) s = Some (Jump l, s)"
| "exec ora n (SLabel l) s = Some (Fall, s)"
| "exec ora 0 (SDoWhile b c) s = None"
| "exec ora (Suc n) (SDoWhile b c) s =
     (case exec_list ora n b None s of
        None \<Rightarrow> None
      | Some (Fall, s') \<Rightarrow>
          (let (v, s'') = eval ora c s' in
           if v \<noteq> 0 then exec ora n (SDoWhile b c) s'' else Some (Fall, s''))
      | Some (x, s') \<Rightarrow> Some (x, s'))"
| "exec_list ora n [] None s = Some (Fall, s)"
| "exec_list ora n [] (Some l) s = Some (Jump l, s)"
| "exec_list ora n (x # xs) (Some l) s =
     (if x = SLabel l then exec_list ora n xs None s else exec_list ora n xs (Some l) s)"
| "exec_list ora n (x # xs) None s =
     (case exec ora n x s of
        None \<Rightarrow> None
      | Some (Fall, s') \<Rightarrow> exec_list ora n xs None s'
      | Some (Jump l, s') \<Rightarrow> exec_list ora n xs (Some l) s'
      | Some (Ret r, s') \<Rightarrow> Some (Ret r, s'))"

text \<open>The type codes of \<^verbatim>\<open>dbus-protocol.h\<close> the stubs compare with.\<close>

definition DBUS_TYPE_INVALID :: int where
  "DBUS_TYPE_INVALID = 0"

definition DBUS_TYPE_STRING :: int where
  "DBUS_TYPE_STRING = 115"

definition DBUS_TYPE_BOOLEAN :: int where
  "DBUS_TYPE_BOOLEAN = 98"

definition DBUS_TYPE_VARIANT :: int where
  "DBUS_TYPE_VARIANT = 118"

definition DBUS_INTERFACE_PROPERTIES :: string where
  "DBUS_INTERFACE_PROPERTIES = ''org.freedesktop.DBus.Properties''"

text \<open>
  Modelled from the spec: the macros of \<^verbatim>\<open>nih/error.h\<close> (not among the sources) raise the
  error and return the value given.
\<close>

definition nih_return_no_memory_error :: "int \<Rightarrow> stmt list" where
  "nih_return_no_memory_error r = [SExpr (ECall ''nih_error_raise_no_memory'' []), SReturn r]"

definition nih_return_error :: "int \<Rightarrow> string \<Rightarrow> string \<Rightarrow> stmt list" where
  "nih_return_error r number message =
     [SExpr (ECall ''nih_error_raise'' [Arg number, Arg message]), SReturn r]"

subsection \<open>Containers opened and closed along a run\<close>

text \<open>
  The containers open after a list of calls, given those open before: a call of
  \<^verbatim>\<open>dbus_message_iter_open_container\<close> that succeeds opens the sub-iterator on its
  parent, a call of \<^verbatim>\<open>dbus_message_iter_close_container\<close> closes the one opened last, and
  must name it. \<open>None\<close> when a container is closed that is not the one opened last.
\<close>

fun containers :: "event list \<Rightarrow> (arg \<times> arg) list \<Rightarrow> (arg \<times> arg) list option" where
  "containers [] st = Some st"
| "containers ((f, as, r) # evs) st =
     (if f = ''dbus_message_iter_open_container'' then
        (case as of
           [p, t, sg, c] \<Rightarrow> if r \<noteq> 0 then containers evs ((p, c) # st) else containers evs st
         | _ \<Rightarrow> None)
      else if f = ''dbus_message_iter_close_container'' then
        (case as of
           [p, c] \<Rightarrow>
             (case st of
                opened # st' \<Rightarrow> if opened = (p, c) then containers evs st' else None
              | [] \<Rightarrow> None)
         | _ \<Rightarrow> None)
      else containers evs st)"

text \<open>The calls of a function among a list of calls.\<close>

definition calls_of :: "string \<Rightarrow> event list \<Rightarrow> event list" where
  "calls_of f evs = filter (\<lambda>e. fst e = f) evs"

subsection \<open>Marshalling and demarshalling fragments\<close>

text \<open>
  Modelled from the spec: \<^verbatim>\<open>marshal\<close> and \<^verbatim>\<open>demarshal\<close> (\<^verbatim>\<open>marshal.c\<close>, \<^verbatim>\<open>demarshal.c\<close> are
  not among the sources) are parameters of the generators. Each returns a fragment of
  code with the variables it reads or writes and the locals it needs, or nothing when it
  is out of memory. The spec gives their contract: a fragment works on message iterators
  and allocates; it opens and closes its sub-iterators in balance on every exit; it
  either completes, or runs the recovery code it was given (\<open>oom\<close> for a failed
  allocation, \<open>type\<close> for a wire type mismatch) and surrenders. The contract is asked
  for recovery code that does not fall through, as all the recovery code of the
  generators is.
\<close>

record TypeVar =
  vtype :: string
  vname :: string

record TypeFunc =
  ftype :: string
  fname :: string
  args :: "TypeVar list"
  attribs :: "string list"

record tool =
  marshal ::
    "string \<Rightarrow> string \<Rightarrow> string \<Rightarrow> stmt list \<Rightarrow> (stmt list \<times> TypeVar list \<times> TypeVar list) option"
  demarshal ::
    "string \<Rightarrow> string \<Rightarrow> string \<Rightarrow> string \<Rightarrow> stmt list \<Rightarrow> stmt list
       \<Rightarrow> (stmt list \<times> TypeVar list \<times> TypeVar list) option"
  type_to_pointer :: "string \<Rightarrow> string"
  type_to_const :: "string \<Rightarrow> string"

definition fragment_call :: "string \<Rightarrow> bool" where
  "fragment_call f =
     (take 18 f = ''dbus_message_iter_''
      \<or> f \<in> set [''nih_alloc'', ''nih_new'', ''nih_realloc'', ''nih_strdup'', ''nih_strndup'',
                  ''nih_free'', ''nih_discard''])"

definition fragment_events :: "event list \<Rightarrow> bool" where
  "fragment_events evs =
     ((\<forall>st. containers evs st = Some st) \<and> list_all (\<lambda>e. fragment_call (fst e)) evs)"

definition extends :: "state \<Rightarrow> state \<Rightarrow> bool" where
  "extends s s' = (\<exists>evs. trace s' = trace s @ evs \<and> fragment_events evs)"

definition fragment_ok :: "stmt list \<Rightarrow> stmt list list \<Rightarrow> bool" where
  "fragment_ok block codes =
     (\<forall>ora n s.
        exec_list ora n block None s = None
        \<or> (\<exists>s'. extends s s'
              \<and> (exec_list ora n block None s = Some (Fall, s')
                  \<or> (\<exists>c \<in> set codes. exec_list ora n block None s = exec_list ora n c None s'))))"

text \<open>
  Recovery code leaves the function or jumps: it never falls through to what follows it.
\<close>

definition leaves :: "stmt list \<Rightarrow> bool" where
  "leaves c = (\<forall>ora n s s'. exec_list ora n c None s \<noteq> Some (Fall, s'))"

definition marshal_contract :: "tool \<Rightarrow> bool" where
  "marshal_contract t =
     (\<forall>sig it nm oom block inputs locals.
        leaves oom \<longrightarrow> marshal t sig it nm oom = Some (block, inputs, locals) \<longrightarrow>
          fragment_ok block [oom])"

definition demarshal_contract :: "tool \<Rightarrow> bool" where
  "demarshal_contract t =
     (\<forall>sig par it nm oom ty block outputs locals.
        leaves oom \<longrightarrow> leaves ty \<longrightarrow>
        demarshal t sig par it nm oom ty = Some (block, outputs, locals) \<longrightarrow>
          fragment_ok block [oom, ty])"

subsection \<open>The generators of property stubs\<close>

text \<open>
  What a generator makes: the function (its header from the prototype, the variables
  laid out, the assertions on its arguments, its statements) and the lists of prototypes
  and of handler prototypes, each with its new entry appended. A generator returns
  \<^verbatim>\<open>NULL\<close> when out of memory (\<open>mem\<close> is whether its own allocations succeed), and aborts
  on a failed assertion.
\<close>

record c_function =
  header :: TypeFunc
  vars_block :: "TypeVar list"
  assert_block :: "string list"
  body :: "stmt list"

record generated =
  code :: c_function
  prototypes :: "TypeFunc list"
  handlers :: "TypeFunc list"

datatype gen_failure = GEN_NOMEM | GEN_ASSERT

definition type_var_new :: "string \<Rightarrow> string \<Rightarrow> TypeVar" where
  "type_var_new ty nm = \<lparr>vtype = ty, vname = nm\<rparr>"

definition type_func_new :: "string \<Rightarrow> string \<Rightarrow> TypeFunc" where
  "type_func_new ty nm = \<lparr>ftype = ty, fname = nm, args = [], attribs = []\<rparr>"

definition invalid_args_raise :: "string \<Rightarrow> stmt list" where
  "invalid_args_raise pname =
     [SExpr (ECall ''nih_dbus_error_raise_printf''
               [Arg ''DBUS_ERROR_INVALID_ARGS'', Lit (''Invalid arguments to '' @ pname @ '' property'')]),
      SReturn (-1)]"

text \<open>\<^verbatim>\<open>property_object_get_function\<close>: the recovery code, the handler call and the stub.\<close>

definition object_get_oom_error_code :: "stmt list" where
  "object_get_oom_error_code =
     [SExpr (ECall ''dbus_message_iter_close_container'' [Arg ''iter'', Arg ''&variter'']),
      SReturn (-1)]"

definition object_get_code_block :: "string \<Rightarrow> string \<Rightarrow> TypeVar list \<Rightarrow> stmt list \<Rightarrow> stmt list" where
  "object_get_code_block handler_name sig inputs block =
     [SIf (ELt (ECall handler_name
                  ([Arg ''object->data'', Arg ''message''] @ map (\<lambda>v. Arg (''&'' @ vname v)) inputs))
               (ENum 0))
        [SReturn (-1)] [],
      SIf (ENot (ECall ''dbus_message_iter_open_container''
                   [Arg ''iter'', Arg ''DBUS_TYPE_VARIANT'', Lit sig, Arg ''&variter'']))
        [SReturn (-1)] []]
     @ block
     @ [SIf (ENot (ECall ''dbus_message_iter_close_container'' [Arg ''iter'', Arg ''&variter'']))
          [SReturn (-1)] []]"

definition property_object_get_function ::
  "tool \<Rightarrow> bool \<Rightarrow> Property \<Rightarrow> string \<Rightarrow> string \<Rightarrow> TypeFunc list \<Rightarrow> TypeFunc list
     \<Rightarrow> gen_failure + generated" where
  "property_object_get_function t mem property name' handler_name prototypes' handlers' =
     (if \<not> mem then Inl GEN_NOMEM
      else
        (case marshal t (chars (type property)) ''variter'' ''value'' object_get_oom_error_code of
           None \<Rightarrow> Inl GEN_NOMEM
         | Some (block, inputs, locals) \<Rightarrow>
             (let func = (type_func_new ''int'' name')
                    \<lparr>args := [type_var_new ''NihDBusObject *'' ''object'',
                              type_var_new ''NihDBusMessage *'' ''message'',
                              type_var_new ''DBusMessageIter *'' ''iter'']\<rparr>;
                  handler_func = (type_func_new ''int'' handler_name)
                    \<lparr>attribs := [''warn_unused_result''],
                     args := [type_var_new ''void *'' ''data'',
                              type_var_new ''NihDBusMessage *'' ''message'']
                             @ map (\<lambda>v. type_var_new (type_to_pointer t (vtype v)) (vname v)) inputs\<rparr>
              in Inr \<lparr>code =
                        \<lparr>header = func,
                         vars_block = [type_var_new ''DBusMessageIter'' ''variter''] @ locals @ inputs,
                         assert_block = [''object'', ''message'', ''iter''],
                         body = object_get_code_block handler_name (chars (type property)) inputs block
                                @ [SReturn 0]\<rparr>,
                      prototypes = prototypes' @ [func],
                      handlers = handlers' @ [handler_func]\<rparr>)))"

text \<open>\<^verbatim>\<open>property_object_set_function\<close>.\<close>

definition object_set_oom_error_code :: "stmt list" where
  "object_set_oom_error_code = [SExpr (ECall ''nih_error_raise_no_memory'' []), SReturn (-1)]"

definition object_set_demarshal_block :: "string \<Rightarrow> stmt list" where
  "object_set_demarshal_block pname =
     [SIf (ENe (ECall ''dbus_message_iter_get_arg_type'' [Arg ''iter'']) (ENum DBUS_TYPE_VARIANT))
        (invalid_args_raise pname) [],
      SExpr (ECall ''dbus_message_iter_recurse'' [Arg ''iter'', Arg ''&variter''])]"

definition object_set_call_block :: "string \<Rightarrow> string \<Rightarrow> TypeVar list \<Rightarrow> stmt list" where
  "object_set_call_block pname handler_name outputs =
     [SExpr (ECall ''dbus_message_iter_next'' [Arg ''iter'']),
      SIf (ENe (ECall ''dbus_message_iter_get_arg_type'' [Arg ''iter'']) (ENum DBUS_TYPE_INVALID))
        (invalid_args_raise pname) [],
      SIf (ELt (ECall handler_name
                  ([Arg ''object->data'', Arg ''message''] @ map (\<lambda>v. Arg (vname v)) outputs))
               (ENum 0))
        [SReturn (-1)] []]"

definition property_object_set_function ::
  "tool \<Rightarrow> bool \<Rightarrow> Property \<Rightarrow> string \<Rightarrow> string \<Rightarrow> TypeFunc list \<Rightarrow> TypeFunc list
     \<Rightarrow> gen_failure + generated" where
  "property_object_set_function t mem property name' handler_name prototypes' handlers' =
     (if \<not> mem then Inl GEN_NOMEM
      else
        (case demarshal t (chars (type property)) ''message'' ''variter'' ''value''
                object_set_oom_error_code (invalid_args_raise (chars (name property))) of
           None \<Rightarrow> Inl GEN_NOMEM
         | Some (block, outputs, locals) \<Rightarrow>
             (let func = (type_func_new ''int'' name')
                    \<lparr>args := [type_var_new ''NihDBusObject *'' ''object'',
                              type_var_new ''NihDBusMessage *'' ''message'',
                              type_var_new ''DBusMessageIter *'' ''iter'']\<rparr>;
                  handler_func = (type_func_new ''int'' handler_name)
                    \<lparr>attribs := [''warn_unused_result''],
                     args := [type_var_new ''void *'' ''data'',
                              type_var_new ''NihDBusMessage *'' ''message'']
                             @ map (\<lambda>v. type_var_new (type_to_const t (vtype v)) (vname v)) outputs\<rparr>
              in Inr \<lparr>code =
                        \<lparr>header = func,
                         vars_block = [type_var_new ''DBusMessageIter'' ''variter''] @ locals @ outputs,
                         assert_block = [''object'', ''message'', ''iter''],
                         body = object_set_demarshal_block (chars (name property))
                                @ block
                                @ object_set_call_block (chars (name property)) handler_name outputs
                                @ [SReturn 0]\<rparr>,
                      prototypes = prototypes' @ [func],
                      handlers = handlers' @ [handler_func]\<rparr>)))"

text \<open>
  The client side. Both client functions build a call of the properties interface, and
  both send it and look at the reply in the same way.
\<close>

definition proxy_locals :: "TypeVar list" where
  "proxy_locals =
     [type_var_new ''DBusMessage *'' ''method_call'',
      type_var_new ''DBusMessageIter'' ''iter'',
      type_var_new ''DBusMessageIter'' ''variter'',
      type_var_new ''DBusError'' ''error'',
      type_var_new ''DBusMessage *'' ''reply'',
      type_var_new ''const char *'' ''interface'',
      type_var_new ''const char *'' ''property'']"

definition construct_call :: "string \<Rightarrow> string \<Rightarrow> string \<Rightarrow> stmt list" where
  "construct_call member interface_name pname =
     [SAssign ''method_call''
        (ECall ''dbus_message_new_method_call''
           [Arg ''proxy->name'', Arg ''proxy->path'', Lit DBUS_INTERFACE_PROPERTIES, Lit member]),
      SIf (ENot (EVar ''method_call'')) (nih_return_no_memory_error (-1)) [],
      SExpr (ECall ''dbus_message_iter_init_append'' [Arg ''method_call'', Arg ''&iter'']),
      SAssign ''interface'' (EStr interface_name),
      SIf (ENot (ECall ''dbus_message_iter_append_basic''
                   [Arg ''&iter'', Arg ''DBUS_TYPE_STRING'', Arg ''&interface'']))
        (nih_return_no_memory_error (-1)) [],
      SAssign ''property'' (EStr pname),
      SIf (ENot (ECall ''dbus_message_iter_append_basic''
                   [Arg ''&iter'', Arg ''DBUS_TYPE_STRING'', Arg ''&property'']))
        (nih_return_no_memory_error (-1)) []]"

definition reply_error :: "stmt list" where
  "reply_error =
     [SExpr (ECall ''dbus_message_unref'' [Arg ''method_call'']),
      SIf (ECall ''dbus_error_has_name'' [Arg ''&error'', Arg ''DBUS_ERROR_NO_MEMORY''])
        [SExpr (ECall ''nih_error_raise_no_memory'' [])]
        [SExpr (ECall ''nih_dbus_error_raise'' [Arg ''error.name'', Arg ''error.message''])],
      SExpr (ECall ''dbus_error_free'' [Arg ''&error'']),
      SReturn (-1)]"

definition send_and_wait :: "stmt list" where
  "send_and_wait =
     [SExpr (ECall ''dbus_error_init'' [Arg ''&error'']),
      SAssign ''reply''
        (ECall ''dbus_connection_send_with_reply_and_block''
           [Arg ''proxy->conn'', Arg ''method_call'', Arg ''-1'', Arg ''&error'']),
      SIf (ENot (EVar ''reply'')) reply_error []]"

definition reply_invalid :: "stmt list" where
  "reply_invalid =
     SExpr (ECall ''dbus_message_unref'' [Arg ''reply''])
     # nih_return_error (-1) ''NIH_DBUS_INVALID_ARGS'' ''_(NIH_DBUS_INVALID_ARGS_STR)''"

text \<open>\<^verbatim>\<open>property_proxy_get_sync_function\<close>.\<close>

definition proxy_get_oom_error_code :: "stmt list" where
  "proxy_get_oom_error_code = [SAssign ''*value'' (ENum 0), SGoto ''enomem'']"

definition proxy_get_reply_check :: "stmt list" where
  "proxy_get_reply_check =
     [SExpr (ECall ''dbus_message_unref'' [Arg ''method_call'']),
      SExpr (ECall ''dbus_message_iter_init'' [Arg ''reply'', Arg ''&iter'']),
      SIf (ENe (ECall ''dbus_message_iter_get_arg_type'' [Arg ''&iter'']) (ENum DBUS_TYPE_VARIANT))
        reply_invalid [],
      SExpr (ECall ''dbus_message_iter_recurse'' [Arg ''&iter'', Arg ''&variter'']),
      SExpr (ECall ''dbus_message_iter_next'' [Arg ''&iter'']),
      SIf (ENe (ECall ''dbus_message_iter_get_arg_type'' [Arg ''&iter'']) (ENum DBUS_TYPE_INVALID))
        reply_invalid []]"

definition arg_name :: "TypeVar \<Rightarrow> string" where
  "arg_name var = ''value'' @ drop 5 (vname var)"

definition copy_out :: "TypeVar \<Rightarrow> stmt" where
  "copy_out var = SAssign (''*'' @ arg_name var) (EVar (vname var))"

definition proxy_get_loop :: "stmt list \<Rightarrow> TypeVar list \<Rightarrow> stmt" where
  "proxy_get_loop block outputs =
     SDoWhile (block @ map copy_out outputs @ [SLabel ''enomem'']) (ENot (EVar ''*value''))"

definition property_proxy_get_sync_function ::
  "tool \<Rightarrow> bool \<Rightarrow> string \<Rightarrow> Property \<Rightarrow> string \<Rightarrow> TypeFunc list \<Rightarrow> gen_failure + generated" where
  "property_proxy_get_sync_function t mem interface_name property name' prototypes' =
     (if \<not> mem then Inl GEN_NOMEM
      else
        (case demarshal t (chars (type property)) ''parent'' ''variter'' ''local''
                proxy_get_oom_error_code reply_invalid of
           None \<Rightarrow> Inl GEN_NOMEM
         | Some (block, outputs, locals) \<Rightarrow>
             if \<not> list_all (\<lambda>var. take 5 (vname var) = ''local'') outputs then Inl GEN_ASSERT
             else
               (let func = (type_func_new ''int'' name')
                      \<lparr>attribs := [''warn_unused_result'']
                                  @ (if deprecated property then [''deprecated''] else []),
                       args := [type_var_new ''const void *'' ''parent'',
                                type_var_new ''NihDBusProxy *'' ''proxy'']
                               @ map (\<lambda>var. type_var_new (type_to_pointer t (vtype var)) (arg_name var))
                                   outputs\<rparr>
                in Inr \<lparr>code =
                          \<lparr>header = func,
                           vars_block = proxy_locals @ locals @ outputs,
                           assert_block = ''proxy'' # map arg_name outputs,
                           body = construct_call ''Get'' interface_name (chars (name property))
                                  @ send_and_wait
                                  @ proxy_get_reply_check
                                  @ [proxy_get_loop block outputs,
                                     SExpr (ECall ''dbus_message_unref'' [Arg ''reply'']),
                                     SReturn 0]\<rparr>,
                        prototypes = prototypes' @ [func],
                        handlers = []\<rparr>)))"

text \<open>\<^verbatim>\<open>property_proxy_set_sync_function\<close>.\<close>

definition proxy_set_oom_error_code :: "stmt list" where
  "proxy_set_oom_error_code =
     [SExpr (ECall ''dbus_message_iter_close_container'' [Arg ''&iter'', Arg ''&variter'']),
      SExpr (ECall ''dbus_message_unref'' [Arg ''method_call''])]
     @ nih_return_no_memory_error (-1)"

definition proxy_set_marshal_block :: "string \<Rightarrow> string \<Rightarrow> string \<Rightarrow> stmt list \<Rightarrow> stmt list" where
  "proxy_set_marshal_block interface_name pname sig block =
     construct_call ''Set'' interface_name pname
     @ [SIf (ENot (ECall ''dbus_message_iter_open_container''
                     [Arg ''&iter'', Arg ''DBUS_TYPE_VARIANT'', Lit sig, Arg ''&variter'']))
          (nih_return_no_memory_error (-1)) []]
     @ block
     @ [SIf (ENot (ECall ''dbus_message_iter_close_container'' [Arg ''&iter'', Arg ''&variter'']))
          (SExpr (ECall ''dbus_message_unref'' [Arg ''method_call''])
           # nih_return_no_memory_error (-1)) []]"

definition proxy_set_reply_check :: "stmt list" where
  "proxy_set_reply_check =
     [SExpr (ECall ''dbus_message_unref'' [Arg ''method_call'']),
      SExpr (ECall ''dbus_message_iter_init'' [Arg ''reply'', Arg ''&iter'']),
      SIf (ENe (ECall ''dbus_message_iter_get_arg_type'' [Arg ''&iter'']) (ENum DBUS_TYPE_INVALID))
        reply_invalid [],
      SExpr (ECall ''dbus_message_unref'' [Arg ''reply''])]"

definition property_proxy_set_sync_function ::
  "tool \<Rightarrow> bool \<Rightarrow> string \<Rightarrow> Property \<Rightarrow> string \<Rightarrow> TypeFunc list \<Rightarrow> gen_failure + generated" where
  "property_proxy_set_sync_function t mem interface_name property name' prototypes' =
     (if \<not> mem then Inl GEN_NOMEM
      else
        (case marshal t (chars (type property)) ''variter'' ''value'' proxy_set_oom_error_code of
           None \<Rightarrow> Inl GEN_NOMEM
         | Some (block, inputs, locals) \<Rightarrow>
             (let const_inputs = map (\<lambda>var. var\<lparr>vtype := type_to_const t (vtype var)\<rparr>) inputs;
                  func = (type_func_new ''int'' name')
                    \<lparr>attribs := [''warn_unused_result'']
                                @ (if deprecated property then [''deprecated''] else []),
                     args := type_var_new ''NihDBusProxy *'' ''proxy'' # const_inputs\<rparr>
              in Inr \<lparr>code =
                        \<lparr>header = func,
                         vars_block = proxy_locals @ locals,
                         assert_block =
                           ''proxy'' # map vname (filter (\<lambda>var. CHR ''*'' \<in> set (vtype var)) const_inputs),
                         body = proxy_set_marshal_block interface_name (chars (name property))
                                  (chars (type property)) block
                                @ send_and_wait
                                @ proxy_set_reply_check
                                @ [SReturn 0]\<rparr>,
                      prototypes = prototypes' @ [func],
                      handlers = []\<rparr>)))"

text \<open>A run of a stub: its statements, from a state, with an oracle and fuel.\<close>

definition run :: "(nat \<Rightarrow> int) \<Rightarrow> nat \<Rightarrow> generated \<Rightarrow> state \<Rightarrow> (exit \<times> state) option" where
  "run ora n g s = exec_list ora n (body (code g)) None s"

text \<open>
  The state after further calls, and the answer of the oracle to the \<open>i\<close>-th call made
  from a state.
\<close>

definition called :: "state \<Rightarrow> event list \<Rightarrow> state" where
  "called s evs = s\<lparr>trace := trace s @ evs\<rparr>"

definition answer :: "(nat \<Rightarrow> int) \<Rightarrow> state \<Rightarrow> nat \<Rightarrow> int" where
  "answer ora s i = ora (length (trace s) + i)"

text \<open>The calls the stubs make, as they appear in a run, each with the value returned.\<close>

definition ev_get_handler :: "string \<Rightarrow> TypeVar list \<Rightarrow> int \<Rightarrow> event" where
  "ev_get_handler handler_name inputs r =
     (handler_name,
      [Arg ''object->data'', Arg ''message''] @ map (\<lambda>v. Arg (''&'' @ vname v)) inputs, r)"

definition ev_set_handler :: "string \<Rightarrow> TypeVar list \<Rightarrow> int \<Rightarrow> event" where
  "ev_set_handler handler_name outputs r =
     (handler_name, [Arg ''object->data'', Arg ''message''] @ map (\<lambda>v. Arg (vname v)) outputs, r)"

definition ev_open :: "string \<Rightarrow> string \<Rightarrow> int \<Rightarrow> event" where
  "ev_open parent sig r =
     (''dbus_message_iter_open_container'',
      [Arg parent, Arg ''DBUS_TYPE_VARIANT'', Lit sig, Arg ''&variter''], r)"

definition ev_close :: "string \<Rightarrow> int \<Rightarrow> event" where
  "ev_close parent r = (''dbus_message_iter_close_container'', [Arg parent, Arg ''&variter''], r)"

definition ev_arg_type :: "string \<Rightarrow> int \<Rightarrow> event" where
  "ev_arg_type it r = (''dbus_message_iter_get_arg_type'', [Arg it], r)"

definition ev_recurse :: "string \<Rightarrow> int \<Rightarrow> event" where
  "ev_recurse it r = (''dbus_message_iter_recurse'', [Arg it, Arg ''&variter''], r)"

definition ev_next :: "string \<Rightarrow> int \<Rightarrow> event" where
  "ev_next it r = (''dbus_message_iter_next'', [Arg it], r)"

definition ev_invalid_args :: "string \<Rightarrow> int \<Rightarrow> event" where
  "ev_invalid_args pname r =
     (''nih_dbus_error_raise_printf'',
      [Arg ''DBUS_ERROR_INVALID_ARGS'', Lit (''Invalid arguments to '' @ pname @ '' property'')], r)"

definition ev_no_memory :: "int \<Rightarrow> event" where
  "ev_no_memory r = (''nih_error_raise_no_memory'', [], r)"

definition ev_unref :: "string \<Rightarrow> int \<Rightarrow> event" where
  "ev_unref message r = (''dbus_message_unref'', [Arg message], r)"

definition ev_error_init :: "int \<Rightarrow> event" where
  "ev_error_init r = (''dbus_error_init'', [Arg ''&error''], r)"

definition ev_send :: "int \<Rightarrow> event" where
  "ev_send r =
     (''dbus_connection_send_with_reply_and_block'',
      [Arg ''proxy->conn'', Arg ''method_call'', Arg ''-1'', Arg ''&error''], r)"

definition ev_has_name :: "int \<Rightarrow> event" where
  "ev_has_name r = (''dbus_error_has_name'', [Arg ''&error'', Arg ''DBUS_ERROR_NO_MEMORY''], r)"

definition ev_remote_error :: "int \<Rightarrow> event" where
  "ev_remote_error r = (''nih_dbus_error_raise'', [Arg ''error.name'', Arg ''error.message''], r)"

definition ev_error_free :: "int \<Rightarrow> event" where
  "ev_error_free r = (''dbus_error_free'', [Arg ''&error''], r)"

definition ev_iter_init :: "int \<Rightarrow> event" where
  "ev_iter_init r = (''dbus_message_iter_init'', [Arg ''reply'', Arg ''&iter''], r)"

definition ev_reply_invalid :: "int \<Rightarrow> event" where
  "ev_reply_invalid r =
     (''nih_error_raise'', [Arg ''NIH_DBUS_INVALID_ARGS'', Arg ''_(NIH_DBUS_INVALID_ARGS_STR)''], r)"

text \<open>
  A call is quiet when it is not the send of the method call and leaves the open
  containers as they are: no close, and no open that succeeds.
\<close>

definition quiet_event :: "event \<Rightarrow> bool" where
  "quiet_event e =
     (fst e \<noteq> ''dbus_connection_send_with_reply_and_block''
      \<and> fst e \<noteq> ''dbus_message_iter_close_container''
      \<and> (fst e = ''dbus_message_iter_open_container'' \<longrightarrow>
            snd (snd e) = 0 \<and> length (fst (snd e)) = 4))"

definition quiet :: "event list \<Rightarrow> bool" where
  "quiet evs = list_all quiet_event evs"

text \<open>The store after the copies of the outputs into the caller's slots.\<close>

fun copy_store :: "TypeVar list \<Rightarrow> (string \<Rightarrow> int) \<Rightarrow> (string \<Rightarrow> int)" where
  "copy_store [] st = st"
| "copy_store (v # vs) st = copy_store vs (st(''*'' @ arg_name v := st (vname v)))"


text \<open>
  The count in the words of the spec: the calls of \<^verbatim>\<open>dbus_message_iter_open_container\<close> on
  an iterator less the calls of \<^verbatim>\<open>dbus_message_iter_close_container\<close> on it, whatever they
  return.
\<close>

definition net_calls :: "arg \<Rightarrow> event list \<Rightarrow> int" where
  "net_calls it evs =
     int (length (filter (\<lambda>e. hd (fst (snd e)) = it) (calls_of ''dbus_message_iter_open_container'' evs)))
     - int (length (filter (\<lambda>e. hd (fst (snd e)) = it) (calls_of ''dbus_message_iter_close_container'' evs)))"

text \<open>
  The same count over the calls that open: a call of \<^verbatim>\<open>dbus_message_iter_open_container\<close>
  that returns false opens nothing.
\<close>

definition net_opened :: "arg \<Rightarrow> event list \<Rightarrow> int" where
  "net_opened it evs =
     int (length (filter (\<lambda>e. hd (fst (snd e)) = it \<and> snd (snd e) \<noteq> 0)
                    (calls_of ''dbus_message_iter_open_container'' evs)))
     - int (length (filter (\<lambda>e. hd (fst (snd e)) = it) (calls_of ''dbus_message_iter_close_container'' evs)))"
subsection \<open>Inputs of the test suite\<close>

text \<open>
  The interface, the parse context and the property of \<^verbatim>\<open>test_property.c\<close>, a signature
  validator that knows the one signature the tests use, and the symbol the tests expect
  for \<^verbatim>\<open>TestProperty\<close>.
\<close>

definition iface0 :: Interface where
  "iface0 = \<lparr>iname = ''com.netsplit.Nih.Test'', isymbol = None, ideprecated = False,
             properties = []\<rparr>"

definition ctx0 :: ParseContext where
  "ctx0 = \<lparr>stack = [PARSE_INTERFACE iface0], heap = heap0, warnings = [], raised = None\<rparr>"

definition validate_s :: "string \<Rightarrow> string option" where
  "validate_s t = (if t = ''s'' then None else Some ''Invalid signature'')"

definition test_symbol :: "string \<Rightarrow> string" where
  "test_symbol n = (if n = ''TestProperty'' then ''test_property'' else n)"

definition other_property :: Property where
  "other_property =
     \<lparr>entry = nih_list_init 1, name = \<lparr>addr = 2, chars = ''Test''\<rparr>,
      symbol = Some \<lparr>addr = 4, chars = ''test_property''\<rparr>, type = \<lparr>addr = 3, chars = ''s''\<rparr>,
      access = NIH_DBUS_READ, deprecated = False\<rparr>"

definition test_property :: Property where
  "test_property =
     \<lparr>entry = nih_list_init 5, name = \<lparr>addr = 6, chars = ''TestProperty''\<rparr>,
      symbol = None, type = \<lparr>addr = 7, chars = ''s''\<rparr>,
      access = NIH_DBUS_READ, deprecated = False\<rparr>"

definition heap8 :: nih_heap where
  "heap8 = \<lparr>live = [(1, 0), (2, 1), (3, 1), (4, 1), (5, 0), (6, 5), (7, 5), (8, 0)],
            brk = 8, calls = 8\<rparr>"

definition ctx_conflict :: ParseContext where
  "ctx_conflict =
     \<lparr>stack = [PARSE_PROPERTY 5 test_property,
               PARSE_INTERFACE (iface0\<lparr>properties := [other_property]\<rparr>)],
      heap = heap8, warnings = [], raised = None\<rparr>"

definition ctx_fresh :: ParseContext where
  "ctx_fresh =
     \<lparr>stack = [PARSE_PROPERTY 5 test_property, PARSE_INTERFACE iface0],
      heap = heap8, warnings = [], raised = None\<rparr>"

text \<open>
  The fragments for the signature \<^verbatim>\<open>s\<close>, as the expected output of the tests shows them,
  and the type conversions the tests show for \<^verbatim>\<open>char *\<close>.
\<close>

definition marshal_s ::
  "string \<Rightarrow> string \<Rightarrow> string \<Rightarrow> stmt list \<Rightarrow> (stmt list \<times> TypeVar list \<times> TypeVar list) option" where
  "marshal_s sig it nm oom =
     (if sig = ''s'' then
        Some ([SIf (ENot (ECall ''dbus_message_iter_append_basic''
                            [Arg (''&'' @ it), Arg ''DBUS_TYPE_STRING'', Arg (''&'' @ nm)]))
                 oom []],
              [type_var_new ''char *'' nm], [])
      else None)"

definition demarshal_s ::
  "string \<Rightarrow> string \<Rightarrow> string \<Rightarrow> string \<Rightarrow> stmt list \<Rightarrow> stmt list
     \<Rightarrow> (stmt list \<times> TypeVar list \<times> TypeVar list) option" where
  "demarshal_s sig par it nm oom ty =
     (if sig = ''s'' then
        Some ([SIf (ENe (ECall ''dbus_message_iter_get_arg_type'' [Arg (''&'' @ it)])
                        (ENum DBUS_TYPE_STRING))
                 ty [],
               SExpr (ECall ''dbus_message_iter_get_basic'' [Arg (''&'' @ it), Arg (''&'' @ nm @ ''_dbus'')]),
               SAssign nm (ECall ''nih_strdup'' [Arg par, Arg (nm @ ''_dbus'')]),
               SIf (ENot (EVar nm)) oom [],
               SExpr (ECall ''dbus_message_iter_next'' [Arg (''&'' @ it)])],
              [type_var_new ''char *'' nm],
              [type_var_new ''const char *'' (nm @ ''_dbus'')])
      else None)"

definition tool_s :: tool where
  "tool_s = \<lparr>marshal = marshal_s, demarshal = demarshal_s,
             type_to_pointer = (\<lambda>ty. ty @ ''*''), type_to_const = (\<lambda>ty. ''const '' @ ty)\<rparr>"

definition my_property :: Property where
  "my_property =
     \<lparr>entry = nih_list_init 1, name = \<lparr>addr = 2, chars = ''my_property''\<rparr>,
      symbol = Some \<lparr>addr = 4, chars = ''my_property''\<rparr>, type = \<lparr>addr = 3, chars = ''s''\<rparr>,
      access = NIH_DBUS_READWRITE, deprecated = False\<rparr>"

definition state0 :: state where
  "state0 = \<lparr>store = (\<lambda>_. 0), trace = []\<rparr>"

text \<open>An oracle that answers the calls of a run in order from a list, and 1 afterwards.\<close>

definition answers :: "int list \<Rightarrow> nat \<Rightarrow> int" where
  "answers xs i = (if i < length xs then xs ! i else 1)"

text \<open>
  Modelled from the spec: the fragments for the signature \<^verbatim>\<open>b\<close>, a basic type. The
  demarshaller compares the type of the next argument, reads the value into the output
  variable and advances the iterator; the marshaller appends the value. The value that
  \<^verbatim>\<open>dbus_message_iter_get_basic\<close> writes through its pointer argument is the answer of
  the call.
\<close>

definition marshal_b ::
  "string \<Rightarrow> string \<Rightarrow> string \<Rightarrow> stmt list \<Rightarrow> (stmt list \<times> TypeVar list \<times> TypeVar list) option" where
  "marshal_b sig it nm oom =
     (if sig = ''b'' then
        Some ([SIf (ENot (ECall ''dbus_message_iter_append_basic''
                            [Arg (''&'' @ it), Arg ''DBUS_TYPE_BOOLEAN'', Arg (''&'' @ nm)]))
                 oom []],
              [type_var_new ''int'' nm], [])
      else None)"

definition demarshal_b ::
  "string \<Rightarrow> string \<Rightarrow> string \<Rightarrow> string \<Rightarrow> stmt list \<Rightarrow> stmt list
     \<Rightarrow> (stmt list \<times> TypeVar list \<times> TypeVar list) option" where
  "demarshal_b sig par it nm oom ty =
     (if sig = ''b'' then
        Some ([SIf (ENe (ECall ''dbus_message_iter_get_arg_type'' [Arg (''&'' @ it)])
                        (ENum DBUS_TYPE_BOOLEAN))
                 ty [],
               SAssign nm (ECall ''dbus_message_iter_get_basic'' [Arg (''&'' @ it), Arg (''&'' @ nm)]),
               SExpr (ECall ''dbus_message_iter_next'' [Arg (''&'' @ it)])],
              [type_var_new ''int'' nm],
              [])
      else None)"

definition tool_b :: tool where
  "tool_b = \<lparr>marshal = marshal_b, demarshal = demarshal_b,
             type_to_pointer = (\<lambda>ty. ty @ '' *''), type_to_const = (\<lambda>ty. ty)\<rparr>"

definition my_flag :: Property where
  "my_flag =
     \<lparr>entry = nih_list_init 1, name = \<lparr>addr = 2, chars = ''my_flag''\<rparr>,
      symbol = Some \<lparr>addr = 4, chars = ''my_flag''\<rparr>, type = \<lparr>addr = 3, chars = ''b''\<rparr>,
      access = NIH_DBUS_READ, deprecated = False\<rparr>"
section \<open>Proofs\<close>

subsection \<open>The name validator accepts exactly the member names\<close>

lemma cchar_cases:
  obtains n :: nat where "of_char c = n" and "n < 256"
    and "cchar c = (if n < 128 then int n else int n - 256)"
proof -
  define n :: nat where "n = of_char c"
  have "n < 256" unfolding n_def by (cases c) simp
  moreover have "cchar c = (if n < 128 then int n else int n - 256)"
    unfolding cchar_def Let_def n_def [symmetric] by simp
  ultimately show thesis using that n_def by blast
qed

lemma cchar_lit:
  "cchar CHR ''0'' = 48" "cchar CHR ''9'' = 57" "cchar CHR ''A'' = 65" "cchar CHR ''Z'' = 90"
  "cchar CHR ''a'' = 97" "cchar CHR ''z'' = 122" "cchar CHR ''_'' = 95"
  by (simp_all add: cchar_def)

lemma cchar_digit: "(cchar c \<ge> cchar CHR ''0'' \<and> cchar c \<le> cchar CHR ''9'') = is_digit c"
proof -
  obtain n :: nat where n: "of_char c = n" "n < 256"
    "cchar c = (if n < 128 then int n else int n - 256)"
    by (rule cchar_cases)
  show ?thesis unfolding is_digit_def cchar_lit n(1,3) using n(2) by auto
qed

lemma cchar_bad:
  "((cchar c < cchar CHR ''A'' \<or> cchar c > cchar CHR ''Z'')
     \<and> (cchar c < cchar CHR ''a'' \<or> cchar c > cchar CHR ''z'')
     \<and> cchar c \<noteq> cchar CHR ''_'') = (\<not> name_start c)"
proof -
  obtain n :: nat where n: "of_char c = n" "n < 256"
    "cchar c = (if n < 128 then int n else int n - 256)"
    by (rule cchar_cases)
  have u: "(of_char CHR ''_'' :: nat) = 95" by simp
  have e: "(c = CHR ''_'') = ((of_char c :: nat) = 95)"
    using u by (metis of_char_eq_iff)
  show ?thesis
    unfolding name_start_def is_upper_def is_lower_def e cchar_lit n(1,3) using n(2) by auto
qed

lemma loop_char: "name_valid_loop nm i = (\<forall>j. i \<le> j \<and> j < length nm \<longrightarrow> char_ok j (nm ! j))"
proof (induction nm i rule: name_valid_loop.induct)
  case (1 nm i)
  show ?case
  proof (cases "i < length nm")
    case False
    then show ?thesis by (subst name_valid_loop.simps) auto
  next
    case True
    note lt = True
    show ?thesis
    proof (cases "is_digit (nm ! i)")
      case True
      show ?thesis
      proof (cases "i = 0")
        case True
        with lt \<open>is_digit (nm ! i)\<close> show ?thesis
          by (subst name_valid_loop.simps) (auto simp: cchar_digit char_ok_def)
      next
        case False
        have "name_valid_loop nm i = name_valid_loop nm (Suc i)"
          using lt False \<open>is_digit (nm ! i)\<close>
          by (subst name_valid_loop.simps) (simp add: cchar_digit)
        also have "\<dots> = (\<forall>j. Suc i \<le> j \<and> j < length nm \<longrightarrow> char_ok j (nm ! j))"
          using "1.IH"(1) lt False \<open>is_digit (nm ! i)\<close> by (simp add: cchar_digit)
        also have "\<dots> = (\<forall>j. i \<le> j \<and> j < length nm \<longrightarrow> char_ok j (nm ! j))"
          using False \<open>is_digit (nm ! i)\<close>
          by (metis Suc_leD Suc_leI char_ok_def le_neq_implies_less)
        finally show ?thesis .
      qed
    next
      case False
      note nd = False
      show ?thesis
      proof (cases "name_start (nm ! i)")
        case False
        with lt nd show ?thesis
          by (subst name_valid_loop.simps) (auto simp: cchar_digit cchar_bad char_ok_def)
      next
        case True
        have "name_valid_loop nm i = name_valid_loop nm (Suc i)"
          using lt nd True
          by (subst name_valid_loop.simps) (simp add: cchar_digit cchar_bad)
        also have "\<dots> = (\<forall>j. Suc i \<le> j \<and> j < length nm \<longrightarrow> char_ok j (nm ! j))"
          using "1.IH"(2) lt nd True by (simp add: cchar_digit cchar_bad)
        also have "\<dots> = (\<forall>j. i \<le> j \<and> j < length nm \<longrightarrow> char_ok j (nm ! j))"
          using nd True
          by (metis Suc_leD Suc_leI char_ok_def le_neq_implies_less)
        finally show ?thesis .
      qed
    qed
  qed
qed

lemma name_tail_iff: "name_tail cs = (\<forall>j < length cs. name_char (cs ! j))"
  by (induction cs) (auto simp: less_Suc_eq_0_disj)

lemma digit_not_start: "is_digit c \<Longrightarrow> \<not> name_start c"
proof -
  have u: "(of_char CHR ''_'' :: nat) = 95" by simp
  show "is_digit c \<Longrightarrow> \<not> name_start c"
    unfolding is_digit_def name_start_def is_upper_def is_lower_def using u by auto
qed

lemma all_ok_regex:
  "(\<forall>j. j < length s \<longrightarrow> char_ok j (s ! j)) = (s = [] \<or> name_regex s)"
proof (cases s)
  case Nil
  then show ?thesis by simp
next
  case (Cons c cs)
  have "(\<forall>j. j < length (c # cs) \<longrightarrow> char_ok j ((c # cs) ! j))
        = (char_ok 0 c \<and> (\<forall>j < length cs. char_ok (Suc j) (cs ! j)))"
    by (auto simp: less_Suc_eq_0_disj)
  also have "\<dots> = (name_start c \<and> (\<forall>j < length cs. name_char (cs ! j)))"
    using digit_not_start by (auto simp: char_ok_def name_char_def)
  finally show ?thesis using Cons by (simp add: name_tail_iff)
qed

lemma property_name_valid_iff: "property_name_valid nm = member_name_spec nm"
proof -
  have "name_valid_loop nm 0 = (nm = [] \<or> name_regex nm)"
    using loop_char [of nm 0] all_ok_regex [of nm] by simp
  then show ?thesis
    unfolding property_name_valid_def member_name_spec_def
    by (cases nm) auto
qed

text \<open>
  Claim C6. \<^verbatim>\<open>property_name_valid\<close> returns true for exactly the strings that match
  \<^verbatim>\<open>[A-Za-z_][A-Za-z0-9_]*\<close> and are 1 to 255 characters long; every other string (the
  empty one, a longer one, one that starts with a digit, one with any other character)
  is rejected.
\<close>

theorem property_name_valid_regex: "property_name_valid nm = member_name_spec nm"
  by (rule property_name_valid_iff)

theorem property_name_valid_regex_witness:
  "property_name_valid ''Wib43ble'' \<and> member_name_spec ''Wib43ble''
   \<and> \<not> property_name_valid ''43Wibble'' \<and> \<not> property_name_valid '''' \<and> \<not> property_name_valid ''Wib-ble''"
  using property_name_valid_regex [of "''Wib43ble''"] property_name_valid_regex [of "''43Wibble''"]
    property_name_valid_regex [of "''''"] property_name_valid_regex [of "''Wib-ble''"]
  by (simp add: member_name_spec_def name_start_def name_char_def is_upper_def is_lower_def is_digit_def)

subsection \<open>The constructor\<close>

text \<open>Freeing a block frees the blocks below it and no other.\<close>

lemma family_subset:
  "set ps \<subseteq> S \<Longrightarrow> (\<forall>(b, par) \<in> set bs. par \<in> S \<longrightarrow> b \<in> S) \<Longrightarrow> set (family n bs ps) \<subseteq> S"
proof (induction n arbitrary: ps)
  case 0
  then show ?case by simp
next
  case (Suc n)
  have "set (ps @ map fst (filter (\<lambda>(b, par). par \<in> set ps \<and> b \<notin> set ps) bs)) \<subseteq> S"
    using Suc.prems by auto
  from Suc.IH [OF this Suc.prems(2)] show ?case by simp
qed

lemma family_mono: "set ps \<subseteq> set (family n bs ps)"
proof (induction n arbitrary: ps)
  case 0
  then show ?case by simp
next
  case (Suc n)
  define qs where "qs = ps @ map fst (filter (\<lambda>(b, par). par \<in> set ps \<and> b \<notin> set ps) bs)"
  have "set ps \<subseteq> set qs" by (simp add: qs_def)
  also have "\<dots> \<subseteq> set (family n bs qs)" by (rule Suc.IH)
  also have "family n bs qs = family (Suc n) bs ps" by (simp add: qs_def)
  finally show ?case .
qed

lemma family_self: "p \<in> set ps \<Longrightarrow> p \<in> set (family n bs ps)"
  using family_mono [of ps n bs] by blast

lemma family_child:
  assumes "(b, par) \<in> set bs" and "par \<in> set ps"
  shows "b \<in> set (family (Suc n) bs ps)"
proof -
  have "b \<in> set (ps @ map fst (filter (\<lambda>(b, par). par \<in> set ps \<and> b \<notin> set ps) bs))"
    using assms by force
  then show ?thesis by (simp add: family_self)
qed

text \<open>A failed \<^verbatim>\<open>property_new\<close> leaves no block behind.\<close>

lemma property_new_failure_frees:
  assumes ok: "heap_ok h" and f: "property_new avail h parent nm ty acc = (None, h')"
  shows "live h' = live h"
proof -
  define p where "p = Suc (brk h)"
  have old: "\<forall>x \<in> set (live h). fst x \<le> brk h \<and> snd x \<le> brk h"
    using ok by (auto simp: heap_ok_def list_all_iff)
  have keep1: "filter (\<lambda>(b, par). b \<noteq> p) (live h) = live h"
    using old by (fastforce simp: filter_id_conv p_def)
  have keep2: "filter (\<lambda>(b, par). b \<noteq> p \<and> b \<noteq> Suc p) (live h) = live h"
    using old by (fastforce simp: filter_id_conv p_def)
  have fam1: "set (family n (live h @ [(p, parent)]) [p]) = {p}" for n
  proof
    show "set (family n (live h @ [(p, parent)]) [p]) \<subseteq> {p}"
    proof (rule family_subset)
      show "set [p] \<subseteq> {p}" by simp
      show "\<forall>(b, par) \<in> set (live h @ [(p, parent)]). par \<in> {p} \<longrightarrow> b \<in> {p}"
        using old by (fastforce simp: p_def)
    qed
    show "{p} \<subseteq> set (family n (live h @ [(p, parent)]) [p])"
      using family_self [of p "[p]"] by simp
  qed
  have fam2: "set (family (Suc n) (live h @ [(p, parent), (Suc p, p)]) [p]) = {p, Suc p}" for n
  proof
    show "set (family (Suc n) (live h @ [(p, parent), (Suc p, p)]) [p]) \<subseteq> {p, Suc p}"
    proof (rule family_subset)
      show "set [p] \<subseteq> {p, Suc p}" by simp
      show "\<forall>(b, par) \<in> set (live h @ [(p, parent), (Suc p, p)]).
              par \<in> {p, Suc p} \<longrightarrow> b \<in> {p, Suc p}"
        using old by (fastforce simp: p_def)
    qed
    have "Suc p \<in> set (family (Suc n) (live h @ [(p, parent), (Suc p, p)]) [p])"
      by (rule family_child [of _ p]) simp_all
    moreover have "p \<in> set (family (Suc n) (live h @ [(p, parent), (Suc p, p)]) [p])"
      by (rule family_self) simp
    ultimately show "{p, Suc p} \<subseteq> set (family (Suc n) (live h @ [(p, parent), (Suc p, p)]) [p])"
      by simp
  qed
  have nz: "p \<noteq> 0" by (simp add: p_def)
  show ?thesis
    using f nz
    by (auto simp: property_new_def nih_alloc_def nih_strdup_def NULL_def nih_free_def
        p_def [symmetric] fam1 fam2 keep1 keep2 simp del: family.simps split: if_splits)
qed

text \<open>
  Claim C10. A successful \<^verbatim>\<open>property_new\<close> returns a property whose name and type are
  new blocks of the allocator, children of the property, holding copies of the strings
  given; its access is the one given, its symbol is null and its deprecated flag false;
  its list entry is linked to itself, so the property is in no list. It returns null
  only when one of its three allocations fails.
\<close>

theorem property_new_result:
  assumes "property_new avail h parent nm ty acc = (r, h')"
  shows "case r of
           None \<Rightarrow> \<not> (avail (calls h) \<and> avail (Suc (calls h)) \<and> avail (Suc (Suc (calls h))))
         | Some (p, prop) \<Rightarrow>
             avail (calls h) \<and> avail (Suc (calls h)) \<and> avail (Suc (Suc (calls h)))
             \<and> p \<noteq> NULL
             \<and> chars (name prop) = nm \<and> chars (type prop) = ty
             \<and> access prop = acc \<and> symbol prop = None \<and> \<not> deprecated prop
             \<and> NIH_LIST_EMPTY p (entry prop)
             \<and> live h' = live h @ [(p, parent), (addr (name prop), p), (addr (type prop), p)]
             \<and> brk h < p \<and> p < addr (name prop) \<and> addr (name prop) < addr (type prop)
             \<and> addr (type prop) = brk h'"
  using assms
  by (auto simp: property_new_def nih_alloc_def nih_strdup_def NULL_def nih_list_init_def
      NIH_LIST_EMPTY_def split: if_splits option.splits prod.splits)

theorem property_new_result_witness:
  "property_new (\<lambda>_. True) heap0 NULL ''Size'' ''i'' NIH_DBUS_READ
     = (Some (1, \<lparr>entry = \<lparr>prev = 1, next = 1\<rparr>, name = \<lparr>addr = 2, chars = ''Size''\<rparr>,
                   symbol = None, type = \<lparr>addr = 3, chars = ''i''\<rparr>,
                   access = NIH_DBUS_READ, deprecated = False\<rparr>),
        \<lparr>live = [(1, 0), (2, 1), (3, 1)], brk = 3, calls = 3\<rparr>)
   \<and> fst (property_new (\<lambda>k. k \<noteq> 2) heap0 NULL ''Size'' ''i'' NIH_DBUS_READ) = None
   \<and> live (snd (property_new (\<lambda>k. k \<noteq> 2) heap0 NULL ''Size'' ''i'' NIH_DBUS_READ)) = []"
proof -
  have e: "property_new (\<lambda>_. True) heap0 NULL ''Size'' ''i'' NIH_DBUS_READ
     = (Some (1, \<lparr>entry = \<lparr>prev = 1, next = 1\<rparr>, name = \<lparr>addr = 2, chars = ''Size''\<rparr>,
                   symbol = None, type = \<lparr>addr = 3, chars = ''i''\<rparr>,
                   access = NIH_DBUS_READ, deprecated = False\<rparr>),
        \<lparr>live = [(1, 0), (2, 1), (3, 1)], brk = 3, calls = 3\<rparr>)"
    by (simp add: property_new_def nih_alloc_def nih_strdup_def NULL_def heap0_def
        nih_list_init_def)
  have f: "property_new (\<lambda>k. k \<noteq> 2) heap0 NULL ''Size'' ''i'' NIH_DBUS_READ
     = (None, \<lparr>live = [], brk = 2, calls = 3\<rparr>)"
    by (simp add: property_new_def nih_alloc_def nih_strdup_def NULL_def heap0_def
        nih_free_def)
  show ?thesis
    using property_new_result [OF e] property_new_result [OF f] e f by simp
qed

subsection \<open>The start tag\<close>

lemma retrieve_attrs_eq:
  "retrieve_attrs attr a ctx =
     (\<lparr>attr_name = (case attr_value ''name'' attr of None \<Rightarrow> attr_name a | Some v \<Rightarrow> Some v),
       attr_type = (case attr_value ''type'' attr of None \<Rightarrow> attr_type a | Some v \<Rightarrow> Some v),
       attr_access = (case attr_value ''access'' attr of None \<Rightarrow> attr_access a | Some v \<Rightarrow> Some v)\<rparr>,
      ctx\<lparr>warnings := warnings ctx @ unknown_warnings attr\<rparr>)"
proof (induction attr arbitrary: a ctx)
  case Nil
  then show ?case by (simp add: unknown_warnings_def)
next
  case (Cons kv attr)
  obtain k v where kv: "kv = (k, v)" by (cases kv)
  show ?case
    unfolding kv
    by (simp add: Cons.IH unknown_warnings_def known_attr_def nih_warn_def split: option.splits)
qed

lemma property_new_all_avail:
  assumes "\<forall>k. avail k"
  shows "property_new avail h parent nm ty acc \<noteq> (None, h')"
  using assms
  by (simp add: property_new_def nih_alloc_def nih_strdup_def NULL_def)

lemma parse_stack_push_all_avail:
  assumes "\<forall>k. avail k"
  shows "parse_stack_push avail ctx e =
           (True, ctx\<lparr>stack := e # stack ctx, heap := snd (nih_alloc avail (heap ctx) NULL)\<rparr>)"
  using assms by (simp add: parse_stack_push_def nih_alloc_def NULL_def)

lemma start_tag_outside:
  assumes "\<forall>k. avail k" and "\<not> in_interface ctx"
  shows "property_start_tag avail validate ctx attr =
           (0, ctx\<lparr>stack := PARSE_IGNORED # stack ctx,
                   heap := snd (nih_alloc avail (heap ctx) NULL),
                   warnings := warnings ctx @ [''Ignored unexpected <property> tag'']\<rparr>)"
  using assms(2)
  by (auto simp: property_start_tag_def parse_stack_top_def in_interface_def nih_warn_def
      parse_stack_push_all_avail [OF assms(1)] split: list.splits ParseStack.splits)

lemma start_tag_inside:
  assumes av: "\<forall>k. avail k" and "in_interface ctx"
  shows "(fst (property_start_tag avail validate ctx attr) < 0)
           = (name_invalid attr \<or> type_invalid validate attr \<or> access_invalid attr)"
    and "warnings (snd (property_start_tag avail validate ctx attr))
           = warnings ctx @ unknown_warnings attr"
proof -
  obtain i rest where st: "stack ctx = PARSE_INTERFACE i # rest"
    using assms(2) by (auto simp: in_interface_def split: list.splits ParseStack.splits)
  note pn = property_new_all_avail [OF av]
  show "(fst (property_start_tag avail validate ctx attr) < 0)
           = (name_invalid attr \<or> type_invalid validate attr \<or> access_invalid attr)"
    unfolding property_start_tag_def parse_stack_top_def st retrieve_attrs_eq
      name_invalid_def type_invalid_def access_invalid_def
    by (auto simp: parse_stack_push_all_avail [OF av] nih_error_raise_def pn
        split: option.splits prod.splits)
  show "warnings (snd (property_start_tag avail validate ctx attr))
           = warnings ctx @ unknown_warnings attr"
    unfolding property_start_tag_def parse_stack_top_def st retrieve_attrs_eq
    by (auto simp: parse_stack_push_all_avail [OF av] nih_error_raise_def pn
        split: option.splits prod.splits)
qed

lemma start_tag_inside_value:
  assumes av: "\<forall>k. avail k" and "in_interface ctx"
  shows "fst (property_start_tag avail validate ctx attr)
           = (if name_invalid attr \<or> type_invalid validate attr \<or> access_invalid attr then -1 else 0)"
proof -
  obtain i rest where st: "stack ctx = PARSE_INTERFACE i # rest"
    using assms(2) by (auto simp: in_interface_def split: list.splits ParseStack.splits)
  note pn = property_new_all_avail [OF av]
  show ?thesis
    unfolding property_start_tag_def parse_stack_top_def st retrieve_attrs_eq
      name_invalid_def type_invalid_def access_invalid_def
    by (auto simp: parse_stack_push_all_avail [OF av] nih_error_raise_def pn
        split: option.splits prod.splits)
qed

lemma attr_value_known:
  "k = ''name'' \<or> k = ''type'' \<or> k = ''access'' \<Longrightarrow>
     attr_value k (filter known_attr attr) = attr_value k attr"
  by (induction attr) (auto simp: known_attr_def split: option.splits)

lemma invalid_known:
  "name_invalid (filter known_attr attr) = name_invalid attr"
  "type_invalid validate (filter known_attr attr) = type_invalid validate attr"
  "access_invalid (filter known_attr attr) = access_invalid attr"
  by (simp_all add: name_invalid_def type_invalid_def access_invalid_def attr_value_known)

subsection \<open>The end tag\<close>

lemma in_property_symbols:
  "(sy \<in> set (property_symbols i)) = (\<exists>q \<in> set (properties i). has_symbol sy q)"
  by (force simp: property_symbols_def map_filter_def has_symbol_def split: option.splits)

lemma property_symbols_append:
  "property_symbols (i\<lparr>properties := properties i @ [q\<lparr>symbol := Some s\<rparr>]\<rparr>)
     = property_symbols i @ [chars s]"
  by (simp add: property_symbols_def map_filter_def)

text \<open>
  Claim C5. At the end tag the property's symbol is the one an annotation gave it, or
  else the one derived from its name; it is never altered to avoid a clash. When a
  property of the interface has that symbol already, \<^verbatim>\<open>property_end_tag\<close> raises the
  duplicate symbol error, naming the symbol and the property that holds it, returns a
  negative value and leaves the interface as it was. Otherwise the property is appended
  with that symbol, and symbols that were distinct remain distinct.
\<close>

theorem property_end_tag_duplicate:
  assumes st: "stack ctx = PARSE_PROPERTY p prop # PARSE_INTERFACE iface # below"
      and av: "avail (calls (heap ctx))"
  shows "let sy = (case symbol prop of
                     Some s \<Rightarrow> chars s
                   | None \<Rightarrow> symbol_from_name (chars (name prop)))
         in if sy \<in> set (property_symbols iface)
            then \<exists>conflict ctx'.
                   conflict \<in> set (properties iface) \<and> has_symbol sy conflict
                   \<and> property_end_tag avail symbol_from_name ctx = Some (-1, ctx')
                   \<and> raised ctx' = Some (PROPERTY_DUPLICATE_SYMBOL sy (chars (name conflict)))
                   \<and> stack ctx' = PARSE_INTERFACE iface # below
            else \<exists>s ctx'.
                   chars s = sy
                   \<and> property_end_tag avail symbol_from_name ctx = Some (0, ctx')
                   \<and> raised ctx' = raised ctx
                   \<and> stack ctx' =
                       PARSE_INTERFACE
                         (iface\<lparr>properties := properties iface @ [prop\<lparr>symbol := Some s\<rparr>]\<rparr>)
                       # below
                   \<and> property_symbols
                         (iface\<lparr>properties := properties iface @ [prop\<lparr>symbol := Some s\<rparr>]\<rparr>)
                       = property_symbols iface @ [sy]
                   \<and> (distinct (property_symbols iface) \<longrightarrow>
                        distinct (property_symbols
                          (iface\<lparr>properties := properties iface @ [prop\<lparr>symbol := Some s\<rparr>]\<rparr>)))"
proof -
  define sy where "sy = (case symbol prop of
                     Some s \<Rightarrow> chars s
                   | None \<Rightarrow> symbol_from_name (chars (name prop)))"
  obtain s h' where sd:
    "(case symbol prop of
        Some s \<Rightarrow> (Some s, heap ctx)
      | None \<Rightarrow> nih_strdup avail (heap ctx) p (symbol_from_name (chars (name prop))))
     = (Some s, h')" and cs: "chars s = sy"
  proof (cases "symbol prop")
    case None
    with av that [of "\<lparr>addr = Suc (brk (heap ctx)), chars = sy\<rparr>"] show ?thesis
      by (simp add: sy_def nih_strdup_def nih_alloc_def NULL_def)
  next
    case (Some s0)
    with that [of s0 "heap ctx"] show ?thesis by (simp add: sy_def)
  qed
  have unf: "property_end_tag avail symbol_from_name ctx =
      (case interface_lookup_property iface sy of
         Some conflict \<Rightarrow>
           Some (-1, nih_error_raise (PROPERTY_DUPLICATE_SYMBOL sy (chars (name conflict)))
                       (ctx\<lparr>stack := PARSE_INTERFACE iface # below, heap := h'\<rparr>))
       | None \<Rightarrow>
           Some (0, ctx\<lparr>stack := PARSE_INTERFACE
                     (iface\<lparr>properties := properties iface @ [prop\<lparr>symbol := Some s\<rparr>]\<rparr>) # below,
                   heap := h'\<rparr>))"
    unfolding property_end_tag_def st by (simp add: sd cs cong: option.case_cong)
  show ?thesis
  proof (cases "sy \<in> set (property_symbols iface)")
    case True
    then obtain q where q: "q \<in> set (properties iface)" "has_symbol sy q"
      by (auto simp: in_property_symbols)
    then obtain conflict where c: "interface_lookup_property iface sy = Some conflict"
      unfolding interface_lookup_property_def by (cases "find (has_symbol sy) (properties iface)") (auto simp: find_None_iff)
    then have "conflict \<in> set (properties iface)" "has_symbol sy conflict"
      unfolding interface_lookup_property_def by (auto simp: find_Some_iff)
    with True c unf show ?thesis
      unfolding Let_def sy_def [symmetric]
      by (auto simp: nih_error_raise_def intro!: exI [of _ conflict])
  next
    case False
    then have "interface_lookup_property iface sy = None"
      unfolding interface_lookup_property_def by (auto simp: find_None_iff in_property_symbols)
    with False unf cs show ?thesis
      unfolding Let_def sy_def [symmetric]
      by (auto simp: property_symbols_append intro!: exI [of _ s])
  qed
qed

theorem property_end_tag_duplicate_witness:
  "property_end_tag (\<lambda>_. True) test_symbol ctx_conflict
     = Some (-1, ctx_conflict
         \<lparr>stack := [PARSE_INTERFACE (iface0\<lparr>properties := [other_property]\<rparr>)],
          heap := heap8\<lparr>live := live heap8 @ [(9, 5)], brk := 9, calls := 9\<rparr>,
          raised := Some (PROPERTY_DUPLICATE_SYMBOL ''test_property'' ''Test'')\<rparr>)
   \<and> (\<exists>c. property_end_tag (\<lambda>_. True) test_symbol ctx_fresh = Some (0, c)
          \<and> (case stack c of
                [PARSE_INTERFACE i] \<Rightarrow> property_symbols i = [''test_property'']
              | _ \<Rightarrow> False))"
proof -
  have a: "stack ctx_conflict
      = PARSE_PROPERTY 5 test_property # PARSE_INTERFACE (iface0\<lparr>properties := [other_property]\<rparr>) # []"
    by (simp add: ctx_conflict_def)
  have b: "stack ctx_fresh = PARSE_PROPERTY 5 test_property # PARSE_INTERFACE iface0 # []"
    by (simp add: ctx_fresh_def)
  have s: "property_symbols (iface0\<lparr>properties := [other_property]\<rparr>) = [''test_property'']"
    "property_symbols iface0 = []"
    by (simp_all add: property_symbols_def map_filter_def other_property_def iface0_def)
  have e: "property_end_tag (\<lambda>_. True) test_symbol ctx_conflict
     = Some (-1, ctx_conflict
         \<lparr>stack := [PARSE_INTERFACE (iface0\<lparr>properties := [other_property]\<rparr>)],
          heap := heap8\<lparr>live := live heap8 @ [(9, 5)], brk := 9, calls := 9\<rparr>,
          raised := Some (PROPERTY_DUPLICATE_SYMBOL ''test_property'' ''Test'')\<rparr>)"
    by (simp add: property_end_tag_def ctx_conflict_def test_property_def test_symbol_def
        nih_strdup_def nih_alloc_def NULL_def heap8_def interface_lookup_property_def
        has_symbol_def other_property_def iface0_def nih_error_raise_def)
  show ?thesis
    using property_end_tag_duplicate [OF a, of "\<lambda>_. True" test_symbol]
      property_end_tag_duplicate [OF b, of "\<lambda>_. True" test_symbol] e s
    by (auto simp: test_property_def test_symbol_def Let_def)
qed
subsection \<open>The start tag, in full\<close>

lemma start_tag_inside_result:
  assumes av: "\<forall>k. avail k" and inside: "in_interface ctx"
  shows "let ctx1 = ctx\<lparr>warnings := warnings ctx @ unknown_warnings attr\<rparr>;
             fails = (\<lambda>e. property_start_tag avail validate ctx attr
                            = (-1, ctx1\<lparr>raised := Some e\<rparr>))
         in case attr_value ''name'' attr of
              None \<Rightarrow> fails PROPERTY_MISSING_NAME
            | Some nm \<Rightarrow>
                if \<not> property_name_valid nm then fails PROPERTY_INVALID_NAME
                else
                  (case attr_value ''type'' attr of
                     None \<Rightarrow> fails PROPERTY_MISSING_TYPE
                   | Some ty \<Rightarrow>
                       (case validate ty of
                          Some message \<Rightarrow> fails (PROPERTY_INVALID_TYPE message)
                        | None \<Rightarrow>
                            (case attr_value ''access'' attr of
                               None \<Rightarrow> fails PROPERTY_MISSING_ACCESS
                             | Some a \<Rightarrow>
                                 if a \<noteq> ''read'' \<and> a \<noteq> ''write'' \<and> a \<noteq> ''readwrite''
                                 then fails PROPERTY_ILLEGAL_ACCESS
                                 else
                                   \<exists>p prop h'.
                                     property_new avail (heap ctx) NULL nm ty
                                       (if a = ''read'' then NIH_DBUS_READ
                                        else if a = ''write'' then NIH_DBUS_WRITE
                                        else NIH_DBUS_READWRITE)
                                     = (Some (p, prop), h')
                                     \<and> property_start_tag avail validate ctx attr
                                         = (0, ctx1\<lparr>stack := PARSE_PROPERTY p prop # stack ctx,
                                                    heap := snd (nih_alloc avail h' NULL)\<rparr>))))"
proof -
  obtain i rest where st: "stack ctx = PARSE_INTERFACE i # rest"
    using inside by (auto simp: in_interface_def split: list.splits ParseStack.splits)
  note pn = property_new_all_avail [OF av]
  show ?thesis
    unfolding property_start_tag_def parse_stack_top_def st retrieve_attrs_eq Let_def
    by (auto simp: st parse_stack_push_all_avail [OF av] nih_error_raise_def pn
        split: option.splits prod.splits)
qed


text \<open>
  Claim C9. With allocation failure aside, \<^verbatim>\<open>property_start_tag\<close> returns a negative
  value exactly when the tag is inside an interface and its name is missing or no valid
  member name, its type is missing or no valid single complete signature, or its access
  is missing or none of read, write and readwrite. Inside an interface the checks are
  made in that order, and the first that fails raises its error (missing name, invalid
  name, missing type, invalid type with the validator's message, missing access,
  illegal access) and leaves the stack and the heap as they were; when none fails the
  new property, with the name, type and access given, is pushed on the stack and the
  function returns zero with nothing raised. An unknown attribute adds a warning and
  changes nothing else of the result. A tag outside an interface is warned about and
  ignored: an ignored entry is pushed, the function returns zero, and no attribute is
  looked at.
\<close>

theorem property_start_tag_errors:
  assumes av: "\<forall>k. avail k"
  shows "((fst (property_start_tag avail validate ctx attr) < 0)
            = (in_interface ctx
               \<and> (name_invalid attr \<or> type_invalid validate attr \<or> access_invalid attr)))
         \<and> (in_interface ctx \<longrightarrow>
              warnings (snd (property_start_tag avail validate ctx attr))
                = warnings ctx @ unknown_warnings attr
              \<and> fst (property_start_tag avail validate ctx attr)
                = fst (property_start_tag avail validate ctx (filter known_attr attr)))
         \<and> (in_interface ctx \<longrightarrow>
              (let ctx1 = ctx\<lparr>warnings := warnings ctx @ unknown_warnings attr\<rparr>;
             fails = (\<lambda>e. property_start_tag avail validate ctx attr
                            = (-1, ctx1\<lparr>raised := Some e\<rparr>))
         in case attr_value ''name'' attr of
              None \<Rightarrow> fails PROPERTY_MISSING_NAME
            | Some nm \<Rightarrow>
                if \<not> property_name_valid nm then fails PROPERTY_INVALID_NAME
                else
                  (case attr_value ''type'' attr of
                     None \<Rightarrow> fails PROPERTY_MISSING_TYPE
                   | Some ty \<Rightarrow>
                       (case validate ty of
                          Some message \<Rightarrow> fails (PROPERTY_INVALID_TYPE message)
                        | None \<Rightarrow>
                            (case attr_value ''access'' attr of
                               None \<Rightarrow> fails PROPERTY_MISSING_ACCESS
                             | Some a \<Rightarrow>
                                 if a \<noteq> ''read'' \<and> a \<noteq> ''write'' \<and> a \<noteq> ''readwrite''
                                 then fails PROPERTY_ILLEGAL_ACCESS
                                 else
                                   \<exists>p prop h'.
                                     property_new avail (heap ctx) NULL nm ty
                                       (if a = ''read'' then NIH_DBUS_READ
                                        else if a = ''write'' then NIH_DBUS_WRITE
                                        else NIH_DBUS_READWRITE)
                                     = (Some (p, prop), h')
                                     \<and> property_start_tag avail validate ctx attr
                                         = (0, ctx1\<lparr>stack := PARSE_PROPERTY p prop # stack ctx,
                                                    heap := snd (nih_alloc avail h' NULL)\<rparr>))))))
         \<and> (\<not> in_interface ctx \<longrightarrow>
              property_start_tag avail validate ctx attr
                = (0, ctx\<lparr>stack := PARSE_IGNORED # stack ctx,
                          heap := snd (nih_alloc avail (heap ctx) NULL),
                          warnings := warnings ctx @ [''Ignored unexpected <property> tag'']\<rparr>))"
proof (cases "in_interface ctx")
  case True
  then show ?thesis
    using start_tag_inside [OF av True] start_tag_inside_value [OF av True]
      start_tag_inside_result [OF av True, of attr validate]
    by (simp add: invalid_known)
next
  case False
  then show ?thesis
    using start_tag_outside [OF av False] by simp
qed

theorem property_start_tag_errors_witness:
  "(\<forall>k. (\<lambda>_. True) k)
   \<and> fst (property_start_tag (\<lambda>_. True) validate_s ctx0
        [(''name'', ''TestProperty''), (''type'', ''s''), (''access'', ''read''),
         (''frodo'', ''baggins'')]) = 0
   \<and> warnings (snd (property_start_tag (\<lambda>_. True) validate_s ctx0
        [(''name'', ''TestProperty''), (''type'', ''s''), (''access'', ''read''),
         (''frodo'', ''baggins'')])) = [''Ignored unknown <property> attribute: frodo'']
   \<and> (\<exists>p prop. stack (snd (property_start_tag (\<lambda>_. True) validate_s ctx0
        [(''name'', ''TestProperty''), (''type'', ''s''), (''access'', ''read''),
         (''frodo'', ''baggins'')])) = [PARSE_PROPERTY p prop, PARSE_INTERFACE iface0]
        \<and> chars (name prop) = ''TestProperty'' \<and> chars (type prop) = ''s''
        \<and> access prop = NIH_DBUS_READ)
   \<and> raised (snd (property_start_tag (\<lambda>_. True) validate_s ctx0
        [(''name'', ''TestProperty''), (''type'', ''s''), (''access'', ''read''),
         (''frodo'', ''baggins'')])) = None
   \<and> property_start_tag (\<lambda>_. True) validate_s ctx0
        [(''name'', ''TestProperty''), (''type'', ''si''), (''access'', ''read'')]
       = (-1, ctx0\<lparr>raised := Some (PROPERTY_INVALID_TYPE ''Invalid signature'')\<rparr>)
   \<and> property_start_tag (\<lambda>_. True) validate_s ctx0 [(''type'', ''s''), (''access'', ''read'')]
       = (-1, ctx0\<lparr>raised := Some PROPERTY_MISSING_NAME\<rparr>)
   \<and> property_start_tag (\<lambda>_. True) validate_s ctx0
        [(''name'', ''TestProperty''), (''type'', ''s''), (''access'', ''sideways'')]
       = (-1, ctx0\<lparr>raised := Some PROPERTY_ILLEGAL_ACCESS\<rparr>)
   \<and> stack (snd (property_start_tag (\<lambda>_. True) validate_s (ctx0\<lparr>stack := [PARSE_NODE]\<rparr>)
        [(''type'', ''s'')])) = [PARSE_IGNORED, PARSE_NODE]"
proof -
  have av: "\<forall>k. (\<lambda>_. True) k" by simp
  have i: "in_interface ctx0" "\<not> in_interface (ctx0\<lparr>stack := [PARSE_NODE]\<rparr>)"
    by (simp_all add: in_interface_def ctx0_def)
  have v: "property_name_valid ''TestProperty''"
    by (simp add: property_name_valid_iff member_name_spec_def name_start_def name_char_def
        is_upper_def is_lower_def is_digit_def)
  have pn: "\<exists>p prop h'. property_new (\<lambda>_. True) heap0 NULL ''TestProperty'' ''s'' NIH_DBUS_READ
      = (Some (p, prop), h') \<and> chars (name prop) = ''TestProperty'' \<and> chars (type prop) = ''s''
        \<and> access prop = NIH_DBUS_READ"
    by (simp add: property_new_def nih_alloc_def nih_strdup_def NULL_def heap0_def Let_def)
  show ?thesis
    using property_start_tag_errors [OF av, of validate_s ctx0
        "[(''name'', ''TestProperty''), (''type'', ''s''), (''access'', ''read''), (''frodo'', ''baggins'')]"]
      property_start_tag_errors [OF av, of validate_s ctx0
        "[(''name'', ''TestProperty''), (''type'', ''si''), (''access'', ''read'')]"]
      property_start_tag_errors [OF av, of validate_s ctx0 "[(''type'', ''s''), (''access'', ''read'')]"]
      property_start_tag_errors [OF av, of validate_s ctx0
        "[(''name'', ''TestProperty''), (''type'', ''s''), (''access'', ''sideways'')]"]
      property_start_tag_errors [OF av, of validate_s "ctx0\<lparr>stack := [PARSE_NODE]\<rparr>" "[(''type'', ''s'')]"]
      start_tag_inside_value [OF av i(1), of validate_s
        "[(''name'', ''TestProperty''), (''type'', ''s''), (''access'', ''read''), (''frodo'', ''baggins'')]"]
      i v pn
    by (auto simp: name_invalid_def type_invalid_def access_invalid_def validate_s_def
        unknown_warnings_def known_attr_def ctx0_def Let_def)
qed

subsection \<open>Attributes of the prototypes\<close>

lemma proxy_get_attribs:
  assumes "property_proxy_get_sync_function t mem interface_name property nm protos = Inr g"
  shows "attribs (header (code g))
           = ''warn_unused_result'' # (if deprecated property then [''deprecated''] else [])"
    and "prototypes g = protos @ [header (code g)]"
  using assms
  by (auto simp: property_proxy_get_sync_function_def type_func_new_def Let_def
      split: if_splits option.splits prod.splits)

lemma proxy_set_attribs:
  assumes "property_proxy_set_sync_function t mem interface_name property nm protos = Inr g"
  shows "attribs (header (code g))
           = ''warn_unused_result'' # (if deprecated property then [''deprecated''] else [])"
    and "prototypes g = protos @ [header (code g)]"
  using assms
  by (auto simp: property_proxy_set_sync_function_def type_func_new_def Let_def
      split: if_splits option.splits prod.splits)

lemma object_get_attribs:
  assumes "property_object_get_function t mem property nm handler_name protos hs = Inr g"
  shows "attribs (header (code g)) = []"
    and "prototypes g = protos @ [header (code g)]"
    and "\<exists>h. handlers g = hs @ [h] \<and> attribs h = [''warn_unused_result'']"
  using assms
  by (auto simp: property_object_get_function_def type_func_new_def Let_def
      split: if_splits option.splits prod.splits)

lemma object_set_attribs:
  assumes "property_object_set_function t mem property nm handler_name protos hs = Inr g"
  shows "attribs (header (code g)) = []"
    and "prototypes g = protos @ [header (code g)]"
    and "\<exists>h. handlers g = hs @ [h] \<and> attribs h = [''warn_unused_result'']"
  using assms
  by (auto simp: property_object_set_function_def type_func_new_def Let_def
      split: if_splits option.splits prod.splits)

text \<open>
  Claim C8. The prototype of a client function carries \<^verbatim>\<open>warn_unused_result\<close> always and
  \<^verbatim>\<open>deprecated\<close> exactly when the property is marked deprecated; the prototype of a
  server stub never carries \<^verbatim>\<open>deprecated\<close>, whatever the flag.
\<close>

theorem deprecated_attribute:
  "(property_proxy_get_sync_function t mem interface_name property nm protos = Inr g \<longrightarrow>
      prototypes g = protos @ [header (code g)]
      \<and> ''warn_unused_result'' \<in> set (attribs (header (code g)))
      \<and> (''deprecated'' \<in> set (attribs (header (code g)))) = deprecated property)
   \<and> (property_proxy_set_sync_function t mem interface_name property nm protos = Inr g \<longrightarrow>
      prototypes g = protos @ [header (code g)]
      \<and> ''warn_unused_result'' \<in> set (attribs (header (code g)))
      \<and> (''deprecated'' \<in> set (attribs (header (code g)))) = deprecated property)
   \<and> (property_object_get_function t mem property nm handler_name protos hs = Inr g \<longrightarrow>
      prototypes g = protos @ [header (code g)]
      \<and> ''deprecated'' \<notin> set (attribs (header (code g))))
   \<and> (property_object_set_function t mem property nm handler_name protos hs = Inr g \<longrightarrow>
      prototypes g = protos @ [header (code g)]
      \<and> ''deprecated'' \<notin> set (attribs (header (code g))))"
  using proxy_get_attribs [of t mem interface_name property nm protos g]
    proxy_set_attribs [of t mem interface_name property nm protos g]
    object_get_attribs(1,2) [of t mem property nm handler_name protos hs g]
    object_set_attribs(1,2) [of t mem property nm handler_name protos hs g]
  by auto

theorem deprecated_attribute_witness:
  "(case property_proxy_get_sync_function tool_s True ''com.netsplit.Nih.Test''
           (my_property\<lparr>deprecated := True\<rparr>) ''my_property_get_sync'' [] of
      Inr g \<Rightarrow> attribs (header (code g)) = [''warn_unused_result'', ''deprecated'']
    | Inl e \<Rightarrow> False)
   \<and> (case property_proxy_set_sync_function tool_s True ''com.netsplit.Nih.Test''
           my_property ''my_property_set_sync'' [] of
      Inr g \<Rightarrow> attribs (header (code g)) = [''warn_unused_result'']
    | Inl e \<Rightarrow> False)
   \<and> (case property_object_get_function tool_s True (my_property\<lparr>deprecated := True\<rparr>)
           ''MyProperty_get'' ''my_property_get'' [] [] of
      Inr g \<Rightarrow> attribs (header (code g)) = []
    | Inl e \<Rightarrow> False)
   \<and> (case property_object_set_function tool_s True (my_property\<lparr>deprecated := True\<rparr>)
           ''MyProperty_set'' ''my_property_set'' [] [] of
      Inr g \<Rightarrow> attribs (header (code g)) = []
    | Inl e \<Rightarrow> False)"
proof -
  obtain g1 where g1: "property_proxy_get_sync_function tool_s True ''com.netsplit.Nih.Test''
           (my_property\<lparr>deprecated := True\<rparr>) ''my_property_get_sync'' [] = Inr g1"
    by (simp add: property_proxy_get_sync_function_def tool_s_def demarshal_s_def my_property_def
        type_var_new_def Let_def)
  obtain g2 where g2: "property_proxy_set_sync_function tool_s True ''com.netsplit.Nih.Test''
           my_property ''my_property_set_sync'' [] = Inr g2"
    by (simp add: property_proxy_set_sync_function_def tool_s_def marshal_s_def my_property_def
        Let_def)
  obtain g3 where g3: "property_object_get_function tool_s True (my_property\<lparr>deprecated := True\<rparr>)
           ''MyProperty_get'' ''my_property_get'' [] [] = Inr g3"
    by (simp add: property_object_get_function_def tool_s_def marshal_s_def my_property_def
        Let_def)
  obtain g4 where g4: "property_object_set_function tool_s True (my_property\<lparr>deprecated := True\<rparr>)
           ''MyProperty_set'' ''my_property_set'' [] [] = Inr g4"
    by (simp add: property_object_set_function_def tool_s_def demarshal_s_def my_property_def
        Let_def)
  have a: "attribs (header (code g1)) = [''warn_unused_result'', ''deprecated'']"
    using proxy_get_attribs(1) [OF g1] by simp
  have b: "attribs (header (code g2)) = [''warn_unused_result'']"
    using proxy_set_attribs(1) [OF g2] by (simp add: my_property_def)
  show ?thesis
    using deprecated_attribute [where t = tool_s and mem = True
        and interface_name = "''com.netsplit.Nih.Test''"
        and property = "my_property\<lparr>deprecated := True\<rparr>"
        and nm = "''my_property_get_sync''" and protos = "[]" and g = g1]
      object_get_attribs(1) [OF g3] object_set_attribs(1) [OF g4] a b g1 g2 g3 g4
    by simp
qed

subsection \<open>Running the emitted code\<close>

lemma exec_list_append:
  "exec_list ora n (a @ b) pend s =
     (case exec_list ora n a pend s of
        None \<Rightarrow> None
      | Some (Fall, s') \<Rightarrow> exec_list ora n b None s'
      | Some (Jump l, s') \<Rightarrow> exec_list ora n b (Some l) s'
      | Some (Ret r, s') \<Rightarrow> Some (Ret r, s'))"
proof (induction a arbitrary: pend s)
  case Nil
  then show ?case by (cases pend) simp_all
next
  case (Cons x a)
  show ?case
  proof (cases pend)
    case None
    then show ?thesis
      by (simp add: Cons.IH split: option.splits prod.splits exit.splits)
  next
    case (Some l)
    then show ?thesis by (simp add: Cons.IH)
  qed
qed

lemma containers_append:
  "containers (a @ b) st =
     (case containers a st of None \<Rightarrow> None | Some st' \<Rightarrow> containers b st')"
proof (induction a arbitrary: st)
  case Nil
  then show ?case by simp
next
  case (Cons e a)
  obtain f as r where e: "e = (f, as, r)" by (cases e)
  show ?case
    unfolding e by (auto simp: Cons.IH split: list.splits)
qed

lemma fragment_events_append:
  "fragment_events a \<Longrightarrow> fragment_events b \<Longrightarrow> fragment_events (a @ b)"
  by (simp add: fragment_events_def containers_append)

lemma fragment_events_containers:
  "fragment_events evs \<Longrightarrow> containers (evs @ rest) st = containers rest st"
  by (simp add: fragment_events_def containers_append)


text \<open>What a fragment does, by its contract.\<close>

lemma fragment_cases [consumes 1, case_names out_of_fuel completes surrenders]:
  assumes "fragment_ok block codes"
  obtains (out_of_fuel) "exec_list ora n block None s = None"
    | (completes) s' fevs where "exec_list ora n block None s = Some (Fall, s')"
        "trace s' = trace s @ fevs" "fragment_events fevs"
    | (surrenders) s' fevs c where "c \<in> set codes"
        "exec_list ora n block None s = exec_list ora n c None s'"
        "trace s' = trace s @ fevs" "fragment_events fevs"
  using assms unfolding fragment_ok_def extends_def by (metis (no_types, lifting))

lemmas ev_defs = ev_get_handler_def ev_set_handler_def ev_open_def ev_close_def ev_arg_type_def
  ev_recurse_def ev_next_def ev_invalid_args_def ev_no_memory_def ev_unref_def ev_send_def
  ev_has_name_def ev_remote_error_def ev_error_free_def ev_reply_invalid_def ev_iter_init_def ev_error_init_def

text \<open>The recovery code of the four generators leaves.\<close>

lemma leaves_object_get: "leaves object_get_oom_error_code"
  by (simp add: leaves_def object_get_oom_error_code_def Let_def)

lemma leaves_object_set: "leaves object_set_oom_error_code"
  by (simp add: leaves_def object_set_oom_error_code_def Let_def)

lemma leaves_invalid_args: "leaves (invalid_args_raise pname)"
  by (simp add: leaves_def invalid_args_raise_def Let_def)

lemma leaves_proxy_get: "leaves proxy_get_oom_error_code"
  by (simp add: leaves_def proxy_get_oom_error_code_def Let_def)

lemma leaves_reply_invalid: "leaves reply_invalid"
  by (simp add: leaves_def reply_invalid_def nih_return_error_def Let_def)

lemma leaves_proxy_set: "leaves proxy_set_oom_error_code"
  by (simp add: leaves_def proxy_set_oom_error_code_def nih_return_no_memory_error_def Let_def)

lemma exec_append_Fall:
  "exec_list ora n a pend s = Some (Fall, s') \<Longrightarrow>
     exec_list ora n (a @ b) pend s = exec_list ora n b None s'"
  by (simp add: exec_list_append)

lemma exec_append_Jump:
  "exec_list ora n a pend s = Some (Jump l, s') \<Longrightarrow>
     exec_list ora n (a @ b) pend s = exec_list ora n b (Some l) s'"
  by (simp add: exec_list_append)

lemma exec_append_Ret:
  "exec_list ora n a pend s = Some (Ret r, s') \<Longrightarrow>
     exec_list ora n (a @ b) pend s = Some (Ret r, s')"
  by (simp add: exec_list_append)

lemma exec_append_None:
  "exec_list ora n a pend s = None \<Longrightarrow> exec_list ora n (a @ b) pend s = None"
  by (simp add: exec_list_append)

lemma exec_copy_out:
  "exec ora n (copy_out v) s
     = Some (Fall, s\<lparr>store := (store s)(''*'' @ arg_name v := store s (vname v))\<rparr>)"
  by (simp add: copy_out_def)

lemma exec_copies:
  "exec_list ora n (map copy_out outputs @ rest) None s
     = exec_list ora n rest None (s\<lparr>store := copy_store outputs (store s)\<rparr>)"
proof (induction outputs arbitrary: s)
  case Nil
  then show ?case by simp
next
  case (Cons v vs)
  show ?case by (simp add: exec_copy_out Cons.IH)
qed

lemma skip_copies:
  "exec_list ora n (map copy_out outputs @ rest) (Some l) s = exec_list ora n rest (Some l) s"
  by (induction outputs) (simp_all add: copy_out_def)

lemma local_not_slot:
  assumes "take 5 (vname v) = ''local''"
  shows "vname v \<noteq> ''*'' @ x"
proof
  assume "vname v = ''*'' @ x"
  then have "take 5 (vname v) = take 5 (''*'' @ x)" by simp
  with assms show False by (cases x) (auto simp: take_Cons')
qed

lemma copy_store_find:
  assumes "list_all (\<lambda>var. take 5 (vname var) = ''local'') vs"
  shows "copy_store vs st x =
           (case find (\<lambda>v. ''*'' @ arg_name v = x) vs of None \<Rightarrow> st x | Some v \<Rightarrow> st (vname v))"
  using assms
proof (induction vs arbitrary: st)
  case Nil
  then show ?case by simp
next
  case (Cons v vs)
  have v: "take 5 (vname v) = ''local''" and vs: "list_all (\<lambda>var. take 5 (vname var) = ''local'') vs"
    using Cons.prems by simp_all
  let ?st1 = "st(''*'' @ arg_name v := st (vname v))"
  show ?case
  proof (cases "find (\<lambda>v. ''*'' @ arg_name v = x) vs")
    case None
    then show ?thesis by (simp add: Cons.IH [OF vs])
  next
    case (Some w)
    then have w: "w \<in> set vs" "''*'' @ arg_name w = x"
      by (auto simp: find_Some_iff)
    then have wl: "take 5 (vname w) = ''local''"
      using vs by (auto simp: list_all_iff)
    have ne: "vname w \<noteq> ''*'' @ arg_name v" by (rule local_not_slot [OF wl])
    have same: "''*'' @ arg_name v = x \<Longrightarrow> vname v = vname w"
    proof -
      assume "''*'' @ arg_name v = x"
      with w(2) have "arg_name v = arg_name w" by auto
      then have "drop 5 (vname v) = drop 5 (vname w)" by (simp add: arg_name_def)
      with v wl show "vname v = vname w" by (metis append_take_drop_id)
    qed
    show ?thesis using Some ne same by (auto simp: Cons.IH [OF vs])
  qed
qed

lemma copy_store_outputs:
  assumes "list_all (\<lambda>var. take 5 (vname var) = ''local'') vs" and "var \<in> set vs"
  shows "copy_store vs st (''*'' @ arg_name var) = copy_store vs st (vname var)"
proof -
  have l: "take 5 (vname var) = ''local''" using assms by (auto simp: list_all_iff)
  obtain w where f: "find (\<lambda>v. ''*'' @ arg_name v = ''*'' @ arg_name var) vs = Some w"
    using assms(2) by (cases "find (\<lambda>v. ''*'' @ arg_name v = ''*'' @ arg_name var) vs")
      (auto simp: find_None_iff)
  then have w: "w \<in> set vs" "arg_name w = arg_name var" by (auto simp: find_Some_iff)
  then have wl: "take 5 (vname w) = ''local''" using assms(1) by (auto simp: list_all_iff)
  have "drop 5 (vname w) = drop 5 (vname var)" using w(2) by (simp add: arg_name_def)
  with l wl have same: "vname w = vname var" by (metis append_take_drop_id)
  have "\<And>v. ''*'' @ arg_name v \<noteq> vname var"
    using local_not_slot [OF l] by metis
  then have "find (\<lambda>v. ''*'' @ arg_name v = vname var) vs = None"
    by (simp add: find_None_iff)
  then show ?thesis
    using f same by (simp add: copy_store_find [OF assms(1)])
qed

lemma proxy_get_loop_shape:
  assumes ok: "fragment_ok block [proxy_get_oom_error_code, reply_invalid]"
    and names: "list_all (\<lambda>var. take 5 (vname var) = ''local'') outputs"
    and run: "exec ora n (proxy_get_loop block outputs) s = Some (ex, s')"
  shows "\<exists>fevs r1 r2. fragment_events fevs
           \<and> ((ex = Fall \<and> trace s' = trace s @ fevs \<and> store s' ''*value'' \<noteq> 0
                 \<and> (\<forall>var \<in> set outputs. store s' (''*'' @ arg_name var) = store s' (vname var)))
              \<or> (ex = Ret (-1)
                  \<and> trace s' = trace s @ fevs @ [ev_unref ''reply'' r1, ev_reply_invalid r2]))"
  using run
proof (induction n arbitrary: s)
  case 0
  then show ?case by (simp add: proxy_get_loop_def)
next
  case (Suc n)
  let ?body = "block @ map copy_out outputs @ [SLabel ''enomem'']"
  have unf: "exec ora (Suc n) (proxy_get_loop block outputs) s =
      (case exec_list ora n ?body None s of
        None \<Rightarrow> None
      | Some (Fall, s1) \<Rightarrow>
          (if store s1 ''*value'' = 0 then exec ora n (proxy_get_loop block outputs) s1
           else Some (Fall, s1))
      | Some (x, s1) \<Rightarrow> Some (x, s1))"
    by (simp add: proxy_get_loop_def split: option.splits prod.splits exit.splits)
  from ok show ?case
  proof (cases rule: fragment_cases [of _ _ ora n s])
    case out_of_fuel
    with Suc.prems unf show ?thesis by (simp add: exec_append_None)
  next
    case (completes s2 fevs)
    define s3 where "s3 = s2\<lparr>store := copy_store outputs (store s2)\<rparr>"
    have b: "exec_list ora n ?body None s = Some (Fall, s3)"
      by (simp add: exec_append_Fall [OF completes(1)] exec_copies s3_def)
    have t3: "trace s3 = trace s @ fevs" using completes(2) by (simp add: s3_def)
    show ?thesis
    proof (cases "store s3 ''*value'' = 0")
      case True
      with Suc.prems unf b have "exec ora n (proxy_get_loop block outputs) s3 = Some (ex, s')"
        by simp
      from Suc.IH [OF this] obtain fevs' r1 r2 where
        f: "fragment_events fevs'" and
        d: "(ex = Fall \<and> trace s' = trace s3 @ fevs' \<and> store s' ''*value'' \<noteq> 0
                 \<and> (\<forall>var \<in> set outputs. store s' (''*'' @ arg_name var) = store s' (vname var)))
              \<or> (ex = Ret (-1)
                  \<and> trace s' = trace s3 @ fevs' @ [ev_unref ''reply'' r1, ev_reply_invalid r2])"
        by blast
      have "fragment_events (fevs @ fevs')"
        using completes(3) f by (rule fragment_events_append)
      with d t3 show ?thesis
        by (intro exI [of _ "fevs @ fevs'"] exI [of _ r1] exI [of _ r2]) auto
    next
      case False
      with Suc.prems unf b have e: "ex = Fall" "s' = s3" by simp_all
      have "\<forall>var \<in> set outputs. store s3 (''*'' @ arg_name var) = store s3 (vname var)"
        using copy_store_outputs [OF names] by (simp add: s3_def)
      with e False t3 completes(3) show ?thesis by blast
    qed
  next
    case (surrenders s2 fevs c)
    from surrenders(1) consider "c = proxy_get_oom_error_code" | "c = reply_invalid" by auto
    then show ?thesis
    proof cases
      case 1
      define s3 where "s3 = s2\<lparr>store := (store s2)(''*value'' := 0)\<rparr>"
      have "exec_list ora n block None s = Some (Jump ''enomem'', s3)"
        using surrenders(2) 1 by (simp add: proxy_get_oom_error_code_def s3_def Let_def)
      then have b: "exec_list ora n ?body None s = Some (Fall, s3)"
        by (simp add: exec_append_Jump skip_copies)
      have t3: "trace s3 = trace s @ fevs" using surrenders(3) by (simp add: s3_def)
      have "store s3 ''*value'' = 0" by (simp add: s3_def)
      with Suc.prems unf b have "exec ora n (proxy_get_loop block outputs) s3 = Some (ex, s')"
        by simp
      from Suc.IH [OF this] obtain fevs' r1 r2 where
        f: "fragment_events fevs'" and
        d: "(ex = Fall \<and> trace s' = trace s3 @ fevs' \<and> store s' ''*value'' \<noteq> 0
                 \<and> (\<forall>var \<in> set outputs. store s' (''*'' @ arg_name var) = store s' (vname var)))
              \<or> (ex = Ret (-1)
                  \<and> trace s' = trace s3 @ fevs' @ [ev_unref ''reply'' r1, ev_reply_invalid r2])"
        by blast
      have "fragment_events (fevs @ fevs')"
        using surrenders(4) f by (rule fragment_events_append)
      with d t3 show ?thesis
        by (intro exI [of _ "fevs @ fevs'"] exI [of _ r1] exI [of _ r2]) auto
    next
      case 2
      have "exec_list ora n block None s
          = Some (Ret (-1), s2\<lparr>trace := trace s2 @ [ev_unref ''reply'' (ora (length (trace s2))),
                ev_reply_invalid (ora (Suc (length (trace s2))))]\<rparr>)"
        using surrenders(2) 2 by (simp add: reply_invalid_def nih_return_error_def ev_defs Let_def)
      then have "exec_list ora n ?body None s
          = Some (Ret (-1), s2\<lparr>trace := trace s2 @ [ev_unref ''reply'' (ora (length (trace s2))),
                ev_reply_invalid (ora (Suc (length (trace s2))))]\<rparr>)"
        by (rule exec_append_Ret)
      with Suc.prems unf have "ex = Ret (-1)"
        "trace s' = trace s2 @ [ev_unref ''reply'' (ora (length (trace s2))),
                ev_reply_invalid (ora (Suc (length (trace s2))))]"
        by auto
      with surrenders(3,4) show ?thesis by auto
    qed
  qed
qed

lemma quiet_containers: "quiet pre \<Longrightarrow> containers (pre @ rest) st = containers rest st"
proof (induction pre arbitrary: st)
  case Nil
  then show ?case by simp
next
  case (Cons e pre)
  obtain f as r where e: "e = (f, as, r)" by (cases e)
  from Cons.prems have q: "quiet_event e" "quiet pre" by (simp_all add: quiet_def)
  show ?case
  proof (cases "f = ''dbus_message_iter_open_container''")
    case True
    with q(1) e obtain p t sg c where "as = [p, t, sg, c]" "r = 0"
      by (auto simp: quiet_event_def length_Suc_conv numeral_eq_Suc)
    with True e Cons.IH [OF q(2)] show ?thesis by simp
  next
    case False
    with q(1) e Cons.IH [OF q(2)] show ?thesis by (simp add: quiet_event_def)
  qed
qed

lemma construct_cases [case_names fails built]:
  obtains (fails) s1 pre where
      "exec_list ora n (construct_call m i p @ rest) None s = Some (Ret (-1), s1)"
      "trace s1 = trace s @ pre" "quiet pre"
    | (built) s1 pre where
      "exec_list ora n (construct_call m i p @ rest) None s = exec_list ora n rest None s1"
      "trace s1 = trace s @ pre" "quiet pre"
proof -
  let ?k = "length (trace s)"
  let ?e0 = "(''dbus_message_new_method_call'',
              [Arg ''proxy->name'', Arg ''proxy->path'', Lit DBUS_INTERFACE_PROPERTIES, Lit m], ora ?k)"
  let ?e1 = "(''dbus_message_iter_init_append'', [Arg ''method_call'', Arg ''&iter''], ora (Suc ?k))"
  let ?e2 = "(''dbus_message_iter_append_basic'',
              [Arg ''&iter'', Arg ''DBUS_TYPE_STRING'', Arg ''&interface''], ora (Suc (Suc ?k)))"
  let ?e3 = "(''dbus_message_iter_append_basic'',
              [Arg ''&iter'', Arg ''DBUS_TYPE_STRING'', Arg ''&property''], ora (Suc (Suc (Suc ?k))))"
  have q: "quiet [(''dbus_message_new_method_call'', as0, b0), (''nih_error_raise_no_memory'', [], a)]"
    "quiet [(''dbus_message_new_method_call'', as0, b0), (''dbus_message_iter_init_append'', as1, b1),
       (''dbus_message_iter_append_basic'', as2, b2), (''nih_error_raise_no_memory'', [], a)]"
    "quiet [(''dbus_message_new_method_call'', as0, b0), (''dbus_message_iter_init_append'', as1, b1),
       (''dbus_message_iter_append_basic'', as2, b2), (''dbus_message_iter_append_basic'', as3, b3),
       (''nih_error_raise_no_memory'', [], a)]"
    "quiet [(''dbus_message_new_method_call'', as0, b0), (''dbus_message_iter_init_append'', as1, b1),
       (''dbus_message_iter_append_basic'', as2, b2), (''dbus_message_iter_append_basic'', as3, b3)]"
    for a as0 as1 as2 as3 b0 b1 b2 b3
    by (simp_all add: quiet_def quiet_event_def)
  show thesis
  proof (cases "ora ?k = 0")
    case True
    show thesis
      by (rule fails [of "s\<lparr>store := (store s)(''method_call'' := 0),
            trace := trace s @ [?e0, ev_no_memory (ora (Suc ?k))]\<rparr>" "[?e0, ev_no_memory (ora (Suc ?k))]"])
        (use True in \<open>simp_all add: construct_call_def nih_return_no_memory_error_def Let_def
          ev_no_memory_def q\<close>)
  next
    case c0: False
    show thesis
    proof (cases "ora (Suc (Suc ?k)) = 0")
      case True
      show thesis
        by (rule fails [of "s\<lparr>store := (store s)(''method_call'' := ora ?k, ''interface'' := 1),
              trace := trace s @ [?e0, ?e1, ?e2, ev_no_memory (ora (Suc (Suc (Suc ?k))))]\<rparr>"
              "[?e0, ?e1, ?e2, ev_no_memory (ora (Suc (Suc (Suc ?k))))]"])
          (use True c0 in \<open>simp_all add: construct_call_def nih_return_no_memory_error_def Let_def
            ev_no_memory_def q\<close>)
    next
      case c2: False
      show thesis
      proof (cases "ora (Suc (Suc (Suc ?k))) = 0")
        case True
        show thesis
          by (rule fails [of "s\<lparr>store := (store s)(''method_call'' := ora ?k, ''interface'' := 1,
                  ''property'' := 1),
                trace := trace s @ [?e0, ?e1, ?e2, ?e3, ev_no_memory (ora (Suc (Suc (Suc (Suc ?k)))))]\<rparr>"
                "[?e0, ?e1, ?e2, ?e3, ev_no_memory (ora (Suc (Suc (Suc (Suc ?k)))))]"])
            (use True c0 c2 in \<open>simp_all add: construct_call_def nih_return_no_memory_error_def
              Let_def ev_no_memory_def q\<close>)
      next
        case c3: False
        show thesis
          by (rule built [of "s\<lparr>store := (store s)(''method_call'' := ora ?k, ''interface'' := 1,
                  ''property'' := 1),
                trace := trace s @ [?e0, ?e1, ?e2, ?e3]\<rparr>" "[?e0, ?e1, ?e2, ?e3]"])
            (use c0 c2 c3 in \<open>simp_all add: construct_call_def nih_return_no_memory_error_def
              Let_def q\<close>)
      qed
    qed
  qed
qed

lemma send_cases [case_names error reply]:
  obtains (error) s1 r0 r1 h r2 r3 where
      "exec_list ora n (send_and_wait @ rest) None s = Some (Ret (-1), s1)"
      "trace s1 = trace s @ [ev_error_init r0, ev_send 0, ev_unref ''method_call'' r1, ev_has_name h,
          (if h \<noteq> 0 then ev_no_memory r2 else ev_remote_error r2), ev_error_free r3]"
    | (reply) s1 r0 r where "r \<noteq> 0"
      "exec_list ora n (send_and_wait @ rest) None s = exec_list ora n rest None s1"
      "trace s1 = trace s @ [ev_error_init r0, ev_send r]"
proof -
  let ?k = "length (trace s)"
  let ?r = "ora (Suc ?k)"
  let ?h = "ora (Suc (Suc (Suc ?k)))"
  show thesis
  proof (cases "?r = 0")
    case True
    show thesis
      by (rule error [of "s\<lparr>store := (store s)(''reply'' := 0),
            trace := trace s @ [ev_error_init (ora ?k), ev_send 0,
              ev_unref ''method_call'' (ora (Suc (Suc ?k))), ev_has_name ?h,
              (if ?h \<noteq> 0 then ev_no_memory (ora (Suc (Suc (Suc (Suc ?k)))))
               else ev_remote_error (ora (Suc (Suc (Suc (Suc ?k)))))),
              ev_error_free (ora (Suc (Suc (Suc (Suc (Suc ?k))))))]\<rparr>"
            "ora ?k" "ora (Suc (Suc ?k))" ?h "ora (Suc (Suc (Suc (Suc ?k))))"
            "ora (Suc (Suc (Suc (Suc (Suc ?k)))))"])
        (use True in \<open>simp_all add: send_and_wait_def reply_error_def Let_def ev_defs\<close>)
  next
    case False
    show thesis
      by (rule reply [of ?r "s\<lparr>trace := trace s @ [ev_error_init (ora ?k), ev_send ?r],
            store := (store s)(''reply'' := ?r)\<rparr>" "ora ?k"])
        (use False in \<open>simp_all add: send_and_wait_def reply_error_def Let_def ev_defs\<close>)
  qed
qed

lemma exec_list_single: "exec_list ora n [x] None s = exec ora n x s"
  by (auto split: option.splits exit.splits)

lemma leaves_cases [consumes 1, case_names out_of_fuel returns jumps]:
  assumes "leaves c"
  obtains (out_of_fuel) "exec_list ora n c None s = None"
    | (returns) r s' where "exec_list ora n c None s = Some (Ret r, s')"
    | (jumps) l s' where "exec_list ora n c None s = Some (Jump l, s')"
proof (cases "exec_list ora n c None s")
  case None
  then show ?thesis by (rule out_of_fuel)
next
  case (Some a)
  obtain ex s' where a: "a = (ex, s')" by (cases a)
  show ?thesis
  proof (cases ex)
    case Fall
    with Some a assms show ?thesis by (simp add: leaves_def)
  next
    case (Ret r)
    with Some a show ?thesis by (auto intro: returns)
  next
    case (Jump l)
    with Some a show ?thesis by (auto intro: jumps)
  qed
qed

lemma fragment_events_single:
  "fragment_call f \<Longrightarrow> f \<noteq> ''dbus_message_iter_open_container'' \<Longrightarrow>
     f \<noteq> ''dbus_message_iter_close_container'' \<Longrightarrow> fragment_events [(f, as, r)]"
  by (simp add: fragment_events_def)

lemma marshal_contract_s: "marshal_contract tool_s"
  unfolding marshal_contract_def
proof (intro allI impI)
  fix sig it nm oom block inputs locals
  assume lv: "leaves oom"
    and m: "marshal tool_s sig it nm oom = Some (block, inputs, locals)"
  from m have b: "block = [SIf (ENot (ECall ''dbus_message_iter_append_basic''
                            [Arg (''&'' @ it), Arg ''DBUS_TYPE_STRING'', Arg (''&'' @ nm)])) oom []]"
    by (auto simp: tool_s_def marshal_s_def split: if_splits)
  show "fragment_ok block [oom]"
    unfolding fragment_ok_def
  proof (intro allI)
    fix ora :: "nat \<Rightarrow> int" and n :: nat and s :: state
    define r where "r = ora (length (trace s))"
    define s1 where "s1 = s\<lparr>trace := trace s @ [(''dbus_message_iter_append_basic'',
        [Arg (''&'' @ it), Arg ''DBUS_TYPE_STRING'', Arg (''&'' @ nm)], r)]\<rparr>"
    have fe: "fragment_events [(''dbus_message_iter_append_basic'',
        [Arg (''&'' @ it), Arg ''DBUS_TYPE_STRING'', Arg (''&'' @ nm)], r)]"
      by (rule fragment_events_single) (simp_all add: fragment_call_def)
    then have ext: "extends s s1" by (auto simp: extends_def s1_def)
    have "exec_list ora n block None s = Some (Fall, s1)
        \<or> exec_list ora n block None s = exec_list ora n oom None s1"
      unfolding b exec_list_single by (simp add: Let_def r_def s1_def)
    with ext show "exec_list ora n block None s = None
        \<or> (\<exists>s'. extends s s'
              \<and> (exec_list ora n block None s = Some (Fall, s')
                  \<or> (\<exists>c \<in> set [oom]. exec_list ora n block None s = exec_list ora n c None s')))"
      by auto
  qed
qed

lemma skip_to_label:
  "\<forall>x \<in> set xs. x \<noteq> SLabel l \<Longrightarrow> exec_list ora n xs (Some l) s = Some (Jump l, s)"
  by (induction xs) simp_all

lemma recover_then:
  assumes lv: "leaves c" and nolabel: "\<forall>l. \<forall>x \<in> set rest. x \<noteq> SLabel l"
  shows "exec_list ora n (SIf e c [] # rest) None s
           = (let (v, s1) = eval ora e s in
              if v \<noteq> 0 then exec_list ora n c None s1 else exec_list ora n rest None s1)"
proof -
  obtain v s1 where e: "eval ora e s = (v, s1)" by (cases "eval ora e s")
  show ?thesis
  proof (cases "v = 0")
    case True
    with e show ?thesis by simp
  next
    case False
    from lv show ?thesis
    proof (cases rule: leaves_cases [of _ ora n s1])
      case out_of_fuel
      with e False show ?thesis by simp
    next
      case (returns r s')
      with e False show ?thesis by simp
    next
      case (jumps l s')
      with e False nolabel show ?thesis by (simp add: skip_to_label)
    qed
  qed
qed

lemma demarshal_contract_s: "demarshal_contract tool_s"
  unfolding demarshal_contract_def
proof (intro allI impI)
  fix sig par it nm oom ty block outputs locals
  assume lo: "leaves oom" and lt: "leaves ty"
    and d: "demarshal tool_s sig par it nm oom ty = Some (block, outputs, locals)"
  define rest2 where "rest2 = [SExpr (ECall ''dbus_message_iter_next'' [Arg (''&'' @ it)])]"
  define rest1 where "rest1 =
      [SExpr (ECall ''dbus_message_iter_get_basic'' [Arg (''&'' @ it), Arg (''&'' @ nm @ ''_dbus'')]),
       SAssign nm (ECall ''nih_strdup'' [Arg par, Arg (nm @ ''_dbus'')]),
       SIf (ENot (EVar nm)) oom []] @ rest2"
  from d have b: "block = SIf (ENe (ECall ''dbus_message_iter_get_arg_type'' [Arg (''&'' @ it)])
                        (ENum DBUS_TYPE_STRING)) ty [] # rest1"
    by (auto simp: tool_s_def demarshal_s_def rest1_def rest2_def split: if_splits)
  have nl1: "\<forall>l. \<forall>x \<in> set rest1. x \<noteq> SLabel l" by (simp add: rest1_def rest2_def)
  have nl2: "\<forall>l. \<forall>x \<in> set rest2. x \<noteq> SLabel l" by (simp add: rest2_def)
  show "fragment_ok block [oom, ty]"
    unfolding fragment_ok_def
  proof (intro allI)
    fix ora :: "nat \<Rightarrow> int" and n :: nat and s :: state
    define k where "k = length (trace s)"
    define e0 where "e0 = (''dbus_message_iter_get_arg_type'', [Arg (''&'' @ it)], ora k)"
    define e1 where "e1 = (''dbus_message_iter_get_basic'',
        [Arg (''&'' @ it), Arg (''&'' @ nm @ ''_dbus'')], ora (Suc k))"
    define e2 where "e2 = (''nih_strdup'', [Arg par, Arg (nm @ ''_dbus'')], ora (Suc (Suc k)))"
    define e3 where "e3 = (''dbus_message_iter_next'', [Arg (''&'' @ it)], ora (Suc (Suc (Suc k))))"
    define s1 where "s1 = s\<lparr>trace := trace s @ [e0]\<rparr>"
    define s3 where "s3 = s\<lparr>trace := trace s @ [e0, e1, e2],
        store := (store s)(nm := ora (Suc (Suc k)))\<rparr>"
    define s4 where "s4 = s3\<lparr>trace := trace s3 @ [e3]\<rparr>"
    have fe: "fragment_events [e0]" "fragment_events [e0, e1, e2]" "fragment_events [e0, e1, e2, e3]"
      by (simp_all add: fragment_events_def fragment_call_def e0_def e1_def e2_def e3_def)
    have ext: "extends s s1" "extends s s3" "extends s s4"
      using fe by (auto simp: extends_def s1_def s3_def s4_def)
    have step1: "exec_list ora n block None s
        = (if ora k \<noteq> DBUS_TYPE_STRING then exec_list ora n ty None s1
           else exec_list ora n rest1 None s1)"
      unfolding b recover_then [OF lt nl1]
      by (simp add: Let_def k_def s1_def e0_def)
    have step2: "exec_list ora n rest1 None s1
        = exec_list ora n (SIf (ENot (EVar nm)) oom [] # rest2) None s3"
      unfolding rest1_def
      by (simp add: Let_def k_def s1_def s3_def e0_def e1_def e2_def)
    have step3: "exec_list ora n (SIf (ENot (EVar nm)) oom [] # rest2) None s3
        = (if ora (Suc (Suc k)) = 0 then exec_list ora n oom None s3 else Some (Fall, s4))"
      unfolding recover_then [OF lo nl2]
      by (simp add: Let_def k_def s3_def s4_def e0_def e1_def e2_def e3_def rest2_def)
    have "exec_list ora n block None s = Some (Fall, s4)
        \<or> exec_list ora n block None s = exec_list ora n oom None s3
        \<or> exec_list ora n block None s = exec_list ora n ty None s1"
      unfolding step1 step2 step3 by simp
    with ext show "exec_list ora n block None s = None
        \<or> (\<exists>s'. extends s s'
              \<and> (exec_list ora n block None s = Some (Fall, s')
                  \<or> (\<exists>c \<in> set [oom, ty]. exec_list ora n block None s = exec_list ora n c None s')))"
      by auto
  qed
qed


lemma fragment_call_iter:
  "fragment_call ''dbus_message_iter_get_arg_type''" "fragment_call ''dbus_message_iter_recurse''"
  "fragment_call ''dbus_message_iter_next''" "fragment_call ''dbus_message_iter_open_container''"
  "fragment_call ''dbus_message_iter_close_container''"
  by (simp_all add: fragment_call_def)

lemma not_fragment_names:
  assumes "\<not> fragment_call h"
  shows "h \<noteq> ''dbus_message_iter_get_arg_type''" "h \<noteq> ''dbus_message_iter_recurse''"
    "h \<noteq> ''dbus_message_iter_next''" "h \<noteq> ''dbus_message_iter_open_container''"
    "h \<noteq> ''dbus_message_iter_close_container''"
  using assms fragment_call_iter by blast+

lemma proxy_get_oom_jumps:
  "exec_list ora n proxy_get_oom_error_code None s
     = Some (Jump ''enomem'', s\<lparr>store := (store s)(''*value'' := 0)\<rparr>)"
  by (simp add: proxy_get_oom_error_code_def)

lemma proxy_get_loop_unfold:
  "exec ora (Suc n) (proxy_get_loop block outputs) s =
      (case exec_list ora n (block @ map copy_out outputs @ [SLabel ''enomem'']) None s of
        None \<Rightarrow> None
      | Some (Fall, s1) \<Rightarrow>
          (if store s1 ''*value'' = 0 then exec ora n (proxy_get_loop block outputs) s1
           else Some (Fall, s1))
      | Some (x, s1) \<Rightarrow> Some (x, s1))"
  by (simp add: proxy_get_loop_def split: option.splits prod.splits exit.splits)

lemma proxy_get_loop_retry:
  assumes "exec_list ora n block None s = exec_list ora n proxy_get_oom_error_code None s1"
  shows "exec ora (Suc n) (proxy_get_loop block outputs) s
           = exec ora n (proxy_get_loop block outputs) (s1\<lparr>store := (store s1)(''*value'' := 0)\<rparr>)"
proof -
  from assms have "exec_list ora n block None s
      = Some (Jump ''enomem'', s1\<lparr>store := (store s1)(''*value'' := 0)\<rparr>)"
    by (simp add: proxy_get_oom_jumps)
  from exec_append_Jump [OF this]
  have "exec_list ora n (block @ map copy_out outputs @ [SLabel ''enomem'']) None s
      = Some (Fall, s1\<lparr>store := (store s1)(''*value'' := 0)\<rparr>)"
    by (simp add: skip_copies)
  then show ?thesis unfolding proxy_get_loop_unfold by simp
qed

lemma proxy_get_loop_exit:
  assumes "exec_list ora n block None s = Some (Fall, s1)"
  shows "exec ora (Suc n) (proxy_get_loop block outputs) s
           = (if copy_store outputs (store s1) ''*value'' = 0
              then exec ora n (proxy_get_loop block outputs)
                     (s1\<lparr>store := copy_store outputs (store s1)\<rparr>)
              else Some (Fall, s1\<lparr>store := copy_store outputs (store s1)\<rparr>))"
proof -
  from exec_append_Fall [OF assms]
  have "exec_list ora n (block @ map copy_out outputs @ [SLabel ''enomem'']) None s
      = Some (Fall, s1\<lparr>store := copy_store outputs (store s1)\<rparr>)"
    by (simp add: exec_copies)
  then show ?thesis unfolding proxy_get_loop_unfold by simp
qed

lemma quiet_containers_all: "quiet pre \<Longrightarrow> containers pre st = Some st"
  using quiet_containers [of pre "[]" st] by simp

lemma trace_called [simp]: "trace (called s evs) = trace s @ evs"
  by (simp add: called_def)

lemma store_called [simp]: "store (called s evs) = store s"
  by (simp add: called_def)

lemmas run_defs = called_def answer_def

text \<open>The runs of the stub of \<^verbatim>\<open>property_object_set_function\<close>, all of them.\<close>

lemma object_set_total [consumes 3, case_names not_variant out_of_fuel no_memory mismatch
    trailing handler]:
  assumes dc: "demarshal_contract t"
    and d: "demarshal t (chars (type property)) ''message'' ''variter'' ''value''
              object_set_oom_error_code (invalid_args_raise (chars (name property)))
            = Some (block, outputs, locals)"
    and gen: "property_object_set_function t mem property nm handler_name protos hs = Inr g"
  obtains
    (not_variant) "answer ora s 0 \<noteq> DBUS_TYPE_VARIANT"
      "run ora n g s = Some (Ret (-1), called s [ev_arg_type ''iter'' (answer ora s 0),
          ev_invalid_args (chars (name property)) (answer ora s 1)])"
  | (out_of_fuel) "answer ora s 0 = DBUS_TYPE_VARIANT"
      "exec_list ora n block None
         (called s [ev_arg_type ''iter'' DBUS_TYPE_VARIANT, ev_recurse ''iter'' (answer ora s 1)])
       = None"
      "run ora n g s = None"
  | (no_memory) s2 fevs where "answer ora s 0 = DBUS_TYPE_VARIANT"
      "trace s2 = trace s @ [ev_arg_type ''iter'' DBUS_TYPE_VARIANT,
          ev_recurse ''iter'' (answer ora s 1)] @ fevs"
      "fragment_events fevs"
      "exec_list ora n block None
         (called s [ev_arg_type ''iter'' DBUS_TYPE_VARIANT, ev_recurse ''iter'' (answer ora s 1)])
       = exec_list ora n object_set_oom_error_code None s2"
      "run ora n g s = Some (Ret (-1), called s2 [ev_no_memory (answer ora s2 0)])"
  | (mismatch) s2 fevs where "answer ora s 0 = DBUS_TYPE_VARIANT"
      "trace s2 = trace s @ [ev_arg_type ''iter'' DBUS_TYPE_VARIANT,
          ev_recurse ''iter'' (answer ora s 1)] @ fevs"
      "fragment_events fevs"
      "exec_list ora n block None
         (called s [ev_arg_type ''iter'' DBUS_TYPE_VARIANT, ev_recurse ''iter'' (answer ora s 1)])
       = exec_list ora n (invalid_args_raise (chars (name property))) None s2"
      "run ora n g s = Some (Ret (-1),
          called s2 [ev_invalid_args (chars (name property)) (answer ora s2 0)])"
  | (trailing) s2 fevs where "answer ora s 0 = DBUS_TYPE_VARIANT"
      "trace s2 = trace s @ [ev_arg_type ''iter'' DBUS_TYPE_VARIANT,
          ev_recurse ''iter'' (answer ora s 1)] @ fevs"
      "fragment_events fevs"
      "exec_list ora n block None
         (called s [ev_arg_type ''iter'' DBUS_TYPE_VARIANT, ev_recurse ''iter'' (answer ora s 1)])
       = Some (Fall, s2)"
      "answer ora s2 1 \<noteq> DBUS_TYPE_INVALID"
      "run ora n g s = Some (Ret (-1), called s2 [ev_next ''iter'' (answer ora s2 0),
          ev_arg_type ''iter'' (answer ora s2 1),
          ev_invalid_args (chars (name property)) (answer ora s2 2)])"
  | (handler) s2 fevs where "answer ora s 0 = DBUS_TYPE_VARIANT"
      "trace s2 = trace s @ [ev_arg_type ''iter'' DBUS_TYPE_VARIANT,
          ev_recurse ''iter'' (answer ora s 1)] @ fevs"
      "fragment_events fevs"
      "exec_list ora n block None
         (called s [ev_arg_type ''iter'' DBUS_TYPE_VARIANT, ev_recurse ''iter'' (answer ora s 1)])
       = Some (Fall, s2)"
      "answer ora s2 1 = DBUS_TYPE_INVALID"
      "run ora n g s = Some (Ret (if answer ora s2 2 < 0 then -1 else 0),
          called s2 [ev_next ''iter'' (answer ora s2 0), ev_arg_type ''iter'' DBUS_TYPE_INVALID,
            ev_set_handler handler_name outputs (answer ora s2 2)])"
proof -
  let ?pn = "chars (name property)"
  let ?post = "object_set_call_block ?pn handler_name outputs @ [SReturn 0]"
  let ?s1 = "called s [ev_arg_type ''iter'' DBUS_TYPE_VARIANT, ev_recurse ''iter'' (answer ora s 1)]"
  from gen d have
    b: "body (code g) = object_set_demarshal_block ?pn @ block @ ?post"
    by (auto simp: property_object_set_function_def Let_def split: if_splits option.splits)
  have ok: "fragment_ok block [object_set_oom_error_code, invalid_args_raise ?pn]"
    using dc d leaves_object_set leaves_invalid_args unfolding demarshal_contract_def by blast
  have r: "run ora n g s = exec_list ora n (object_set_demarshal_block ?pn @ block @ ?post) None s"
    using b by (simp add: run_def)
  show thesis
  proof (cases "answer ora s 0 = DBUS_TYPE_VARIANT")
    case False
    then have "run ora n g s = Some (Ret (-1), called s [ev_arg_type ''iter'' (answer ora s 0),
          ev_invalid_args ?pn (answer ora s 1)])"
      unfolding r
      by (simp add: object_set_demarshal_block_def invalid_args_raise_def Let_def run_defs ev_defs)
    with False show thesis by (rule that(1))
  next
    case True
    note variant = True
    have step: "run ora n g s = exec_list ora n (block @ ?post) None ?s1"
      unfolding r using True
      by (simp add: object_set_demarshal_block_def Let_def run_defs ev_defs)
    from ok show thesis
    proof (cases rule: fragment_cases [of _ _ ora n ?s1])
      case out_of_fuel
      from exec_append_None [OF out_of_fuel] step have none: "run ora n g s = None" by simp
      from variant out_of_fuel none show thesis by (rule that(2))
    next
      case (completes s2 fevs)
      have t2: "trace s2 = trace s @ [ev_arg_type ''iter'' DBUS_TYPE_VARIANT,
          ev_recurse ''iter'' (answer ora s 1)] @ fevs"
        using completes(2) by simp
      have e: "run ora n g s = exec_list ora n ?post None s2"
        using step exec_append_Fall [OF completes(1)] by simp
      show thesis
      proof (cases "answer ora s2 1 = DBUS_TYPE_INVALID")
        case False
        then have "run ora n g s = Some (Ret (-1), called s2 [ev_next ''iter'' (answer ora s2 0),
            ev_arg_type ''iter'' (answer ora s2 1), ev_invalid_args ?pn (answer ora s2 2)])"
          unfolding e
          by (simp add: object_set_call_block_def invalid_args_raise_def Let_def run_defs ev_defs
              numeral_2_eq_2)
        with variant t2 completes(3,1) False show thesis by (rule that(5))
      next
        case True
        then have "run ora n g s = Some (Ret (if answer ora s2 2 < 0 then -1 else 0),
            called s2 [ev_next ''iter'' (answer ora s2 0), ev_arg_type ''iter'' DBUS_TYPE_INVALID,
              ev_set_handler handler_name outputs (answer ora s2 2)])"
          unfolding e
          by (simp add: object_set_call_block_def Let_def run_defs ev_defs numeral_2_eq_2)
        with variant t2 completes(3,1) True show thesis by (rule that(6))
      qed
    next
      case (surrenders s2 fevs c)
      have t2: "trace s2 = trace s @ [ev_arg_type ''iter'' DBUS_TYPE_VARIANT,
          ev_recurse ''iter'' (answer ora s 1)] @ fevs"
        using surrenders(3) by simp
      from surrenders(1) consider "c = object_set_oom_error_code" | "c = invalid_args_raise ?pn"
        by auto
      then show thesis
      proof cases
        case 1
        have "exec_list ora n block None ?s1
            = Some (Ret (-1), called s2 [ev_no_memory (answer ora s2 0)])"
          using surrenders(2) 1 by (simp add: object_set_oom_error_code_def Let_def run_defs ev_defs)
        from exec_append_Ret [OF this] step
        have "run ora n g s = Some (Ret (-1), called s2 [ev_no_memory (answer ora s2 0)])"
          by simp
        with variant t2 surrenders(4) surrenders(2) [unfolded 1] show thesis by (rule that(3))
      next
        case 2
        have "exec_list ora n block None ?s1
            = Some (Ret (-1), called s2 [ev_invalid_args ?pn (answer ora s2 0)])"
          using surrenders(2) 2 by (simp add: invalid_args_raise_def Let_def run_defs ev_defs)
        from exec_append_Ret [OF this] step
        have "run ora n g s = Some (Ret (-1), called s2 [ev_invalid_args ?pn (answer ora s2 0)])"
          by simp
        with variant t2 surrenders(4) surrenders(2) [unfolded 2] show thesis by (rule that(4))
      qed
    qed
  qed
qed





lemma send_fails:
  assumes "answer ora s1 1 = 0"
  shows "\<exists>s'. exec_list ora n (send_and_wait @ rest) None s1 = Some (Ret (-1), s')
           \<and> store s' = (store s1)(''reply'' := 0)
           \<and> trace s' = trace s1 @ [ev_error_init (answer ora s1 0), ev_send 0,
                 ev_unref ''method_call'' (answer ora s1 2), ev_has_name (answer ora s1 3),
                 (if answer ora s1 3 \<noteq> 0 then ev_no_memory (answer ora s1 4)
                  else ev_remote_error (answer ora s1 4)),
                 ev_error_free (answer ora s1 5)]"
  using assms
  by (simp add: send_and_wait_def reply_error_def Let_def answer_def ev_defs eval_nat_numeral)

lemma send_fails_run:
  assumes b: "body (code g) = pre @ send_and_wait @ rest"
    and p: "exec_list ora n pre None s = Some (Fall, s1)"
    and a: "answer ora s1 1 = 0"
  shows "\<exists>s'. run ora n g s = Some (Ret (-1), s')
           \<and> store s' = (store s1)(''reply'' := 0)
           \<and> trace s' = trace s1 @ [ev_error_init (answer ora s1 0), ev_send 0,
                 ev_unref ''method_call'' (answer ora s1 2), ev_has_name (answer ora s1 3),
                 (if answer ora s1 3 \<noteq> 0 then ev_no_memory (answer ora s1 4)
                  else ev_remote_error (answer ora s1 4)),
                 ev_error_free (answer ora s1 5)]"
proof -
  have "run ora n g s = exec_list ora n (send_and_wait @ rest) None s1"
    unfolding run_def b by (rule exec_append_Fall [OF p])
  with send_fails [OF a, of n rest] show ?thesis by simp
qed

lemma net_opened_Nil: "net_opened it [] = 0"
  by (simp add: net_opened_def calls_of_def)

lemma net_opened_Cons:
  "net_opened it ((f, as, r) # evs) =
     (if f = ''dbus_message_iter_open_container'' \<and> hd as = it \<and> r \<noteq> 0 then 1 else 0)
     - (if f = ''dbus_message_iter_close_container'' \<and> hd as = it then 1 else 0)
     + net_opened it evs"
  by (simp add: net_opened_def calls_of_def)

lemma containers_net:
  "containers evs st = Some st' \<Longrightarrow>
     int (length (filter (\<lambda>pc. fst pc = it) st'))
       = int (length (filter (\<lambda>pc. fst pc = it) st)) + net_opened it evs"
proof (induction evs arbitrary: st)
  case Nil
  then show ?case by (simp add: net_opened_Nil)
next
  case (Cons e evs)
  obtain f as r where e: "e = (f, as, r)" by (cases e)
  show ?case
  proof (cases "f = ''dbus_message_iter_open_container''")
    case True
    with Cons.prems e obtain p ty sg c where as: "as = [p, ty, sg, c]"
      by (auto split: list.splits)
    show ?thesis
    proof (cases "r = 0")
      case True
      with Cons.prems e as \<open>f = ''dbus_message_iter_open_container''\<close>
      have "containers evs st = Some st'" by simp
      from Cons.IH [OF this] True e as \<open>f = ''dbus_message_iter_open_container''\<close>
      show ?thesis by (simp add: net_opened_Cons)
    next
      case False
      with Cons.prems e as \<open>f = ''dbus_message_iter_open_container''\<close>
      have "containers evs ((p, c) # st) = Some st'" by simp
      from Cons.IH [OF this] False e as \<open>f = ''dbus_message_iter_open_container''\<close>
      show ?thesis by (simp add: net_opened_Cons)
    qed
  next
    case nopen: False
    show ?thesis
    proof (cases "f = ''dbus_message_iter_close_container''")
      case True
      with Cons.prems e nopen obtain p c st0 where as: "as = [p, c]" and st: "st = (p, c) # st0"
        and rest: "containers evs st0 = Some st'"
        by (auto split: list.splits if_splits)
      from Cons.IH [OF rest] True e as st show ?thesis
        by (simp add: net_opened_Cons)
    next
      case False
      with Cons.prems e nopen have "containers evs st = Some st'" by simp
      from Cons.IH [OF this] False nopen e show ?thesis by (simp add: net_opened_Cons)
    qed
  qed
qed

lemma containers_net_zero: "containers evs st = Some st \<Longrightarrow> net_opened it evs = 0"
  using containers_net [of evs st st it] by simp

text \<open>
  Every run of a stub either returns with its containers closed, or is out of fuel in
  its fragment.
\<close>

lemma settledI1:
  "run ora n g s = Some (ex, s') \<Longrightarrow> trace s' = trace s @ evs \<Longrightarrow>
     (\<And>st. containers evs st = Some st) \<Longrightarrow>
     (\<exists>ex s' evs. run ora n g s = Some (ex, s') \<and> trace s' = trace s @ evs
        \<and> (\<forall>st. containers evs st = Some st)) \<or> Q"
  by blast

lemma settledI2:
  "run ora n g s = None \<Longrightarrow> body (code g) = pre @ core @ post \<Longrightarrow>
     exec_list ora n pre None s = Some (Fall, s1) \<Longrightarrow> exec_list ora n core None s1 = None \<Longrightarrow>
     P \<or> (run ora n g s = None
          \<and> (\<exists>pre post s1. body (code g) = pre @ core @ post
                \<and> exec_list ora n pre None s = Some (Fall, s1)
                \<and> exec_list ora n core None s1 = None))"
  by blast

lemma run_through:
  assumes b: "body (code g) = pre @ core @ post"
    and p: "exec_list ora n pre None s = Some (Fall, s1)"
  shows "run ora n g s = exec_list ora n (core @ post) None s1"
  unfolding run_def b by (rule exec_append_Fall [OF p])

lemma run_stopped:
  assumes b: "body (code g) = pre @ rest"
    and p: "exec_list ora n pre None s = Some (Ret r, s1)"
  shows "run ora n g s = Some (Ret r, s1)"
  unfolding run_def b by (rule exec_append_Ret [OF p])

lemma construct_total [case_names fails built]:
  obtains (fails) s1 pre where
      "exec_list ora n (construct_call m i p) None s = Some (Ret (-1), s1)"
      "trace s1 = trace s @ pre" "quiet pre"
    | (built) s1 pre where
      "exec_list ora n (construct_call m i p) None s = Some (Fall, s1)"
      "trace s1 = trace s @ pre" "quiet pre"
  using construct_cases [of ora n m i p "[]" s] by simp metis

lemma object_get_settled:
  assumes mc: "marshal_contract t"
    and m: "marshal t (chars (type property)) ''variter'' ''value'' object_get_oom_error_code
          = Some (block, inputs, locals)"
    and gen: "property_object_get_function t mem property nm handler_name protos hs = Inr g"
    and nf: "\<not> fragment_call handler_name"
  shows "(\<exists>ex s' evs. run ora n g s = Some (ex, s') \<and> trace s' = trace s @ evs
            \<and> (\<forall>st. containers evs st = Some st))
         \<or> (run ora n g s = None
            \<and> (\<exists>pre post s1. body (code g) = pre @ block @ post
                  \<and> exec_list ora n pre None s = Some (Fall, s1)
                  \<and> exec_list ora n block None s1 = None))"
proof -
  let ?h = "SIf (ELt (ECall handler_name
                  ([Arg ''object->data'', Arg ''message''] @ map (\<lambda>v. Arg (''&'' @ vname v)) inputs))
               (ENum 0)) [SReturn (-1)] []"
  let ?o = "SIf (ENot (ECall ''dbus_message_iter_open_container''
                   [Arg ''iter'', Arg ''DBUS_TYPE_VARIANT'', Lit (chars (type property)),
                    Arg ''&variter''])) [SReturn (-1)] []"
  let ?c = "SIf (ENot (ECall ''dbus_message_iter_close_container'' [Arg ''iter'', Arg ''&variter'']))
          [SReturn (-1)] []"
  let ?r0 = "answer ora s 0"
  let ?r1 = "answer ora s 1"
  let ?s1 = "called s [ev_get_handler handler_name inputs ?r0,
      ev_open ''iter'' (chars (type property)) ?r1]"
  note names = not_fragment_names [OF nf]
  from gen m have b: "body (code g) = [?h, ?o] @ block @ [?c, SReturn 0]"
    by (auto simp: property_object_get_function_def object_get_code_block_def Let_def
        split: if_splits option.splits)
  have ok: "fragment_ok block [object_get_oom_error_code]"
    using mc m leaves_object_get unfolding marshal_contract_def by blast
  show ?thesis
  proof (cases "?r0 < 0")
    case True
    then have "exec_list ora n [?h, ?o] None s
        = Some (Ret (-1), called s [ev_get_handler handler_name inputs ?r0])"
      by (simp add: Let_def run_defs ev_defs)
    from run_stopped [OF b this] show ?thesis
      by (rule settledI1)
        (use names in \<open>simp add: ev_defs\<close>, use names in \<open>simp add: ev_defs\<close>)
  next
    case nneg: False
    show ?thesis
    proof (cases "?r1 = 0")
      case True
      with nneg have "exec_list ora n [?h, ?o] None s = Some (Ret (-1), ?s1)"
        by (simp add: Let_def run_defs ev_defs)
      from run_stopped [OF b this] show ?thesis
        by (rule settledI1)
        (use names True in \<open>simp add: ev_defs\<close>, use names True in \<open>simp add: ev_defs\<close>)
    next
      case opened: False
      with nneg have p: "exec_list ora n [?h, ?o] None s = Some (Fall, ?s1)"
        by (simp add: Let_def run_defs ev_defs)
      note r = run_through [OF b p]
      from ok show ?thesis
      proof (cases rule: fragment_cases [of _ _ ora n ?s1])
        case out_of_fuel
        from r exec_append_None [OF out_of_fuel] have "run ora n g s = None" by simp
        then show ?thesis using b p out_of_fuel by (rule settledI2)
      next
        case (completes s2 fevs)
        from r exec_append_Fall [OF completes(1)]
        have "run ora n g s = Some (if answer ora s2 0 = 0 then Ret (-1) else Ret 0,
            called s2 [ev_close ''iter'' (answer ora s2 0)])"
          by (simp add: Let_def run_defs ev_defs)
        then show ?thesis
          by (rule settledI1)
        (use names opened completes(2,3) in \<open>simp add: ev_defs fragment_events_containers\<close>, use names opened completes(2,3) in \<open>simp add: ev_defs fragment_events_containers\<close>)
      next
        case (surrenders s2 fevs c)
        then have "exec_list ora n block None ?s1
            = Some (Ret (-1), called s2 [ev_close ''iter'' (answer ora s2 0)])"
          by (simp add: object_get_oom_error_code_def Let_def run_defs ev_defs)
        from r exec_append_Ret [OF this]
        have "run ora n g s = Some (Ret (-1), called s2 [ev_close ''iter'' (answer ora s2 0)])"
          by simp
        then show ?thesis
          by (rule settledI1)
        (use names opened surrenders(3,4) in \<open>simp add: ev_defs fragment_events_containers\<close>, use names opened surrenders(3,4) in \<open>simp add: ev_defs fragment_events_containers\<close>)
      qed
    qed
  qed
qed

lemma object_set_settled:
  assumes dc: "demarshal_contract t"
    and d: "demarshal t (chars (type property)) ''message'' ''variter'' ''value''
              object_set_oom_error_code (invalid_args_raise (chars (name property)))
            = Some (block, outputs, locals)"
    and gen: "property_object_set_function t mem property nm handler_name protos hs = Inr g"
    and nf: "\<not> fragment_call handler_name"
  shows "(\<exists>ex s' evs. run ora n g s = Some (ex, s') \<and> trace s' = trace s @ evs
            \<and> (\<forall>st. containers evs st = Some st))
         \<or> (run ora n g s = None
            \<and> (\<exists>pre post s1. body (code g) = pre @ block @ post
                  \<and> exec_list ora n pre None s = Some (Fall, s1)
                  \<and> exec_list ora n block None s1 = None))"
proof -
  let ?pn = "chars (name property)"
  let ?s1 = "called s [ev_arg_type ''iter'' DBUS_TYPE_VARIANT, ev_recurse ''iter'' (answer ora s 1)]"
  note names = not_fragment_names [OF nf]
  from gen d have
    b: "body (code g) = object_set_demarshal_block ?pn @ block
          @ (object_set_call_block ?pn handler_name outputs @ [SReturn 0])"
    by (auto simp: property_object_set_function_def Let_def split: if_splits option.splits)
  from dc d gen show ?thesis
  proof (cases rule: object_set_total [where ora = ora and n = n and s = s])
    case not_variant
    from not_variant(2) show ?thesis
      by (rule settledI1) (simp add: ev_defs, simp add: ev_defs)
  next
    case out_of_fuel
    from out_of_fuel(1) have p: "exec_list ora n (object_set_demarshal_block ?pn) None s
        = Some (Fall, ?s1)"
      by (simp add: object_set_demarshal_block_def Let_def run_defs ev_defs)
    from out_of_fuel(3) b p out_of_fuel(2) show ?thesis by (rule settledI2)
  next
    case (no_memory s2 fevs)
    from no_memory(5) show ?thesis
      by (rule settledI1)
        (use no_memory(2,3) in \<open>simp add: ev_defs fragment_events_containers\<close>, use no_memory(2,3) in \<open>simp add: ev_defs fragment_events_containers\<close>)
  next
    case (mismatch s2 fevs)
    from mismatch(5) show ?thesis
      by (rule settledI1)
        (use mismatch(2,3) in \<open>simp add: ev_defs fragment_events_containers\<close>, use mismatch(2,3) in \<open>simp add: ev_defs fragment_events_containers\<close>)
  next
    case (trailing s2 fevs)
    from trailing(6) show ?thesis
      by (rule settledI1)
        (use trailing(2,3) in \<open>simp add: ev_defs fragment_events_containers\<close>, use trailing(2,3) in \<open>simp add: ev_defs fragment_events_containers\<close>)
  next
    case (handler s2 fevs)
    from handler(6) show ?thesis
      by (rule settledI1)
        (use names handler(2,3) in \<open>simp add: ev_defs fragment_events_containers\<close>, use names handler(2,3) in \<open>simp add: ev_defs fragment_events_containers\<close>)
  qed
qed

lemma proxy_set_settled:
  assumes mc: "marshal_contract t"
    and m: "marshal t (chars (type property)) ''variter'' ''value'' proxy_set_oom_error_code
          = Some (block, inputs, locals)"
    and gen: "property_proxy_set_sync_function t mem interface_name property nm protos = Inr g"
  shows "(\<exists>ex s' evs. run ora n g s = Some (ex, s') \<and> trace s' = trace s @ evs
            \<and> (\<forall>st. containers evs st = Some st))
         \<or> (run ora n g s = None
            \<and> (\<exists>pre post s1. body (code g) = pre @ block @ post
                  \<and> exec_list ora n pre None s = Some (Fall, s1)
                  \<and> exec_list ora n block None s1 = None))"
proof -
  let ?sg = "chars (type property)"
  let ?build = "construct_call ''Set'' interface_name (chars (name property))"
  let ?o = "SIf (ENot (ECall ''dbus_message_iter_open_container''
      [Arg ''&iter'', Arg ''DBUS_TYPE_VARIANT'', Lit ?sg, Arg ''&variter'']))
      (nih_return_no_memory_error (-1)) []"
  let ?c = "SIf (ENot (ECall ''dbus_message_iter_close_container''
      [Arg ''&iter'', Arg ''&variter'']))
      (SExpr (ECall ''dbus_message_unref'' [Arg ''method_call'']) # nih_return_no_memory_error (-1)) []"
  let ?tail = "proxy_set_reply_check @ [SReturn 0]"
  from gen m have
    b: "body (code g) = (?build @ [?o]) @ block @ (?c # (send_and_wait @ ?tail))"
    by (auto simp: property_proxy_set_sync_function_def proxy_set_marshal_block_def Let_def
        split: if_splits option.splits)
  have ok: "fragment_ok block [proxy_set_oom_error_code]"
    using mc m leaves_proxy_set unfolding marshal_contract_def by blast
  show ?thesis
  proof (cases rule: construct_total [of ora n "''Set''" interface_name "chars (name property)" s])
    case (fails s0 pre)
    from exec_append_Ret [OF fails(1)]
    have "exec_list ora n (?build @ [?o]) None s = Some (Ret (-1), s0)" .
    from run_stopped [OF b this] show ?thesis
      by (rule settledI1)
        (use fails(2,3) in \<open>simp\<close>, use fails(2,3) in \<open>simp add: quiet_containers_all\<close>)
  next
    case (built s0 pre)
    let ?r4 = "answer ora s0 0"
    let ?s1 = "called s0 [ev_open ''&iter'' ?sg ?r4]"
    have o: "exec_list ora n (?build @ [?o]) None s = exec_list ora n [?o] None s0"
      by (rule exec_append_Fall [OF built(1)])
    show ?thesis
    proof (cases "?r4 = 0")
      case True
      then have "exec_list ora n (?build @ [?o]) None s
          = Some (Ret (-1), called s0 [ev_open ''&iter'' ?sg 0, ev_no_memory (answer ora s0 1)])"
        unfolding o by (simp add: nih_return_no_memory_error_def Let_def run_defs ev_defs)
      from run_stopped [OF b this] show ?thesis
        by (rule settledI1)
          (use built(2,3) in \<open>simp add: ev_defs quiet_containers\<close>,
           use built(2,3) in \<open>simp add: ev_defs quiet_containers\<close>)
    next
      case opened: False
      then have p: "exec_list ora n (?build @ [?o]) None s = Some (Fall, ?s1)"
        unfolding o by (simp add: nih_return_no_memory_error_def Let_def run_defs ev_defs)
      note r = run_through [OF b p]
      from ok show ?thesis
      proof (cases rule: fragment_cases [of _ _ ora n ?s1])
        case out_of_fuel
        from r exec_append_None [OF out_of_fuel] have "run ora n g s = None" by simp
        then show ?thesis using b p out_of_fuel by (rule settledI2)
      next
        case (surrenders s2 fevs c)
        then have "exec_list ora n block None ?s1
            = Some (Ret (-1), called s2 [ev_close ''&iter'' (answer ora s2 0),
                ev_unref ''method_call'' (answer ora s2 1), ev_no_memory (answer ora s2 2)])"
          by (simp add: proxy_set_oom_error_code_def nih_return_no_memory_error_def Let_def
              run_defs ev_defs numeral_2_eq_2)
        from r exec_append_Ret [OF this]
        have "run ora n g s = Some (Ret (-1), called s2 [ev_close ''&iter'' (answer ora s2 0),
                ev_unref ''method_call'' (answer ora s2 1), ev_no_memory (answer ora s2 2)])"
          by simp
        then show ?thesis
          by (rule settledI1)
            (use opened built(2,3) surrenders(3,4) in
               \<open>simp add: ev_defs quiet_containers fragment_events_containers\<close>,
             use opened built(2,3) surrenders(3,4) in
               \<open>simp add: ev_defs quiet_containers fragment_events_containers\<close>)
      next
        case (completes s2 fevs)
        let ?rc = "answer ora s2 0"
        let ?s3 = "called s2 [ev_close ''&iter'' ?rc]"
        from r exec_append_Fall [OF completes(1)]
        have r2: "run ora n g s = exec_list ora n (?c # (send_and_wait @ ?tail)) None s2"
          by simp
        show ?thesis
        proof (cases "?rc = 0")
          case True
          then have "run ora n g s = Some (Ret (-1), called s2 [ev_close ''&iter'' 0,
                ev_unref ''method_call'' (answer ora s2 1), ev_no_memory (answer ora s2 2)])"
            unfolding r2
            by (simp add: nih_return_no_memory_error_def Let_def run_defs ev_defs numeral_2_eq_2)
          then show ?thesis
            by (rule settledI1)
              (use opened built(2,3) completes(2,3) in
                 \<open>simp add: ev_defs quiet_containers fragment_events_containers\<close>,
               use opened built(2,3) completes(2,3) in
                 \<open>simp add: ev_defs quiet_containers fragment_events_containers\<close>)
        next
          case closed: False
          then have r3: "run ora n g s = exec_list ora n (send_and_wait @ ?tail) None ?s3"
            unfolding r2
            by (simp add: nih_return_no_memory_error_def Let_def run_defs ev_defs)
          show ?thesis
          proof (cases rule: send_cases [of ora n ?tail ?s3])
            case (error s4 r0 r1 h r2 r3)
            from r3 error(1) have "run ora n g s = Some (Ret (-1), s4)" by simp
            then show ?thesis
              by (rule settledI1)
                (use opened built(2,3) completes(2,3) error(2) in
                   \<open>simp add: ev_defs quiet_containers fragment_events_containers\<close>,
                 use opened built(2,3) completes(2,3) error(2) in
                   \<open>simp add: ev_defs quiet_containers fragment_events_containers\<close>)
          next
            case (reply s4 r0 rr)
            from r3 reply(2) have r4: "run ora n g s = exec_list ora n ?tail None s4" by simp
            have "run ora n g s
                = (if answer ora s4 2 \<noteq> DBUS_TYPE_INVALID
                   then Some (Ret (-1), called s4 [ev_unref ''method_call'' (answer ora s4 0),
                          ev_iter_init (answer ora s4 1), ev_arg_type ''&iter'' (answer ora s4 2),
                          ev_unref ''reply'' (answer ora s4 3), ev_reply_invalid (answer ora s4 4)])
                   else Some (Ret 0, called s4 [ev_unref ''method_call'' (answer ora s4 0),
                          ev_iter_init (answer ora s4 1), ev_arg_type ''&iter'' DBUS_TYPE_INVALID,
                          ev_unref ''reply'' (answer ora s4 3)]))"
              unfolding r4
              by (simp add: proxy_set_reply_check_def reply_invalid_def nih_return_error_def
                  Let_def run_defs ev_defs eval_nat_numeral)
            then consider
              (bad) "run ora n g s = Some (Ret (-1), called s4 [ev_unref ''method_call'' (answer ora s4 0),
                          ev_iter_init (answer ora s4 1), ev_arg_type ''&iter'' (answer ora s4 2),
                          ev_unref ''reply'' (answer ora s4 3), ev_reply_invalid (answer ora s4 4)])"
              | (good) "run ora n g s = Some (Ret 0, called s4 [ev_unref ''method_call'' (answer ora s4 0),
                          ev_iter_init (answer ora s4 1), ev_arg_type ''&iter'' DBUS_TYPE_INVALID,
                          ev_unref ''reply'' (answer ora s4 3)])"
              by (cases "answer ora s4 2 \<noteq> DBUS_TYPE_INVALID") simp_all
            then show ?thesis
            proof cases
              case bad
              then show ?thesis
                by (rule settledI1)
                  (use opened built(2,3) completes(2,3) reply(3) in
                     \<open>simp add: ev_defs quiet_containers fragment_events_containers\<close>,
                   use opened built(2,3) completes(2,3) reply(3) in
                     \<open>simp add: ev_defs quiet_containers fragment_events_containers\<close>)
            next
              case good
              then show ?thesis
                by (rule settledI1)
                  (use opened built(2,3) completes(2,3) reply(3) in
                     \<open>simp add: ev_defs quiet_containers fragment_events_containers\<close>,
                   use opened built(2,3) completes(2,3) reply(3) in
                     \<open>simp add: ev_defs quiet_containers fragment_events_containers\<close>)
            qed
          qed
        qed
      qed
    qed
  qed
qed

lemma proxy_get_settled:
  assumes dc: "demarshal_contract t"
    and d: "demarshal t (chars (type property)) ''parent'' ''variter'' ''local''
              proxy_get_oom_error_code reply_invalid = Some (block, outputs, locals)"
    and gen: "property_proxy_get_sync_function t mem interface_name property nm protos = Inr g"
  shows "(\<exists>ex s' evs. run ora n g s = Some (ex, s') \<and> trace s' = trace s @ evs
            \<and> (\<forall>st. containers evs st = Some st))
         \<or> (run ora n g s = None
            \<and> (\<exists>pre post s1. body (code g) = pre @ [proxy_get_loop block outputs] @ post
                  \<and> exec_list ora n pre None s = Some (Fall, s1)
                  \<and> exec_list ora n [proxy_get_loop block outputs] None s1 = None))"
proof -
  let ?build = "construct_call ''Get'' interface_name (chars (name property))"
  let ?loop = "proxy_get_loop block outputs"
  let ?post = "[SExpr (ECall ''dbus_message_unref'' [Arg ''reply'']), SReturn 0]"
  from gen d have
    b: "body (code g) = (?build @ (send_and_wait @ proxy_get_reply_check)) @ [?loop] @ ?post"
    and names: "list_all (\<lambda>var. take 5 (vname var) = ''local'') outputs"
    by (auto simp: property_proxy_get_sync_function_def Let_def split: if_splits option.splits)
  have ok: "fragment_ok block [proxy_get_oom_error_code, reply_invalid]"
    using dc d leaves_proxy_get leaves_reply_invalid unfolding demarshal_contract_def by blast
  show ?thesis
  proof (cases rule: construct_total [of ora n "''Get''" interface_name "chars (name property)" s])
    case (fails s0 pre)
    from exec_append_Ret [OF fails(1)]
    have "exec_list ora n (?build @ (send_and_wait @ proxy_get_reply_check)) None s
        = Some (Ret (-1), s0)" .
    from run_stopped [OF b this] show ?thesis
      by (rule settledI1)
        (use fails(2,3) in \<open>simp\<close>, use fails(2,3) in \<open>simp add: quiet_containers_all\<close>)
  next
    case (built s0 pre)
    have o: "exec_list ora n (?build @ (send_and_wait @ proxy_get_reply_check)) None s
        = exec_list ora n (send_and_wait @ proxy_get_reply_check) None s0"
      by (rule exec_append_Fall [OF built(1)])
    show ?thesis
    proof (cases rule: send_cases [of ora n proxy_get_reply_check s0])
      case (error s4 r0 r1 h r2 r3)
      from o error(1)
      have "exec_list ora n (?build @ (send_and_wait @ proxy_get_reply_check)) None s
          = Some (Ret (-1), s4)"
        by simp
      from run_stopped [OF b this] show ?thesis
        by (rule settledI1)
          (use built(2,3) error(2) in \<open>simp add: ev_defs quiet_containers\<close>,
           use built(2,3) error(2) in \<open>simp add: ev_defs quiet_containers\<close>)
    next
      case (reply s4 r0 rr)
      let ?s5 = "called s4 [ev_unref ''method_call'' (answer ora s4 0),
                    ev_iter_init (answer ora s4 1), ev_arg_type ''&iter'' DBUS_TYPE_VARIANT,
                    ev_recurse ''&iter'' (answer ora s4 3), ev_next ''&iter'' (answer ora s4 4),
                    ev_arg_type ''&iter'' DBUS_TYPE_INVALID]"
      from o reply(2)
      have o2: "exec_list ora n (?build @ (send_and_wait @ proxy_get_reply_check)) None s
          = exec_list ora n proxy_get_reply_check None s4"
        by simp
      have chk: "exec_list ora n proxy_get_reply_check None s4
          = (if answer ora s4 2 \<noteq> DBUS_TYPE_VARIANT
             then Some (Ret (-1), called s4 [ev_unref ''method_call'' (answer ora s4 0),
                    ev_iter_init (answer ora s4 1), ev_arg_type ''&iter'' (answer ora s4 2),
                    ev_unref ''reply'' (answer ora s4 3), ev_reply_invalid (answer ora s4 4)])
             else if answer ora s4 5 \<noteq> DBUS_TYPE_INVALID
             then Some (Ret (-1), called s4 [ev_unref ''method_call'' (answer ora s4 0),
                    ev_iter_init (answer ora s4 1), ev_arg_type ''&iter'' DBUS_TYPE_VARIANT,
                    ev_recurse ''&iter'' (answer ora s4 3), ev_next ''&iter'' (answer ora s4 4),
                    ev_arg_type ''&iter'' (answer ora s4 5),
                    ev_unref ''reply'' (answer ora s4 6), ev_reply_invalid (answer ora s4 7)])
             else Some (Fall, ?s5))"
        by (simp add: proxy_get_reply_check_def reply_invalid_def nih_return_error_def
            Let_def run_defs ev_defs eval_nat_numeral)
      consider
        (not_variant) "answer ora s4 2 \<noteq> DBUS_TYPE_VARIANT"
        | (trailing) "answer ora s4 2 = DBUS_TYPE_VARIANT" "answer ora s4 5 \<noteq> DBUS_TYPE_INVALID"
        | (entered) "answer ora s4 2 = DBUS_TYPE_VARIANT" "answer ora s4 5 = DBUS_TYPE_INVALID"
        by blast
      then show ?thesis
      proof cases
        case not_variant
        with o2 chk
        have "exec_list ora n (?build @ (send_and_wait @ proxy_get_reply_check)) None s
          = Some (Ret (-1), called s4 [ev_unref ''method_call'' (answer ora s4 0),
                    ev_iter_init (answer ora s4 1), ev_arg_type ''&iter'' (answer ora s4 2),
                    ev_unref ''reply'' (answer ora s4 3), ev_reply_invalid (answer ora s4 4)])"
          by simp
        from run_stopped [OF b this] show ?thesis
          by (rule settledI1)
            (use built(2,3) reply(3) in \<open>simp add: ev_defs quiet_containers\<close>,
             use built(2,3) reply(3) in \<open>simp add: ev_defs quiet_containers\<close>)
      next
        case trailing
        with o2 chk
        have "exec_list ora n (?build @ (send_and_wait @ proxy_get_reply_check)) None s
          = Some (Ret (-1), called s4 [ev_unref ''method_call'' (answer ora s4 0),
                    ev_iter_init (answer ora s4 1), ev_arg_type ''&iter'' DBUS_TYPE_VARIANT,
                    ev_recurse ''&iter'' (answer ora s4 3), ev_next ''&iter'' (answer ora s4 4),
                    ev_arg_type ''&iter'' (answer ora s4 5),
                    ev_unref ''reply'' (answer ora s4 6), ev_reply_invalid (answer ora s4 7)])"
          by simp
        from run_stopped [OF b this] show ?thesis
          by (rule settledI1)
            (use built(2,3) reply(3) in \<open>simp add: ev_defs quiet_containers\<close>,
             use built(2,3) reply(3) in \<open>simp add: ev_defs quiet_containers\<close>)
      next
        case entered
        with o2 chk
        have p: "exec_list ora n (?build @ (send_and_wait @ proxy_get_reply_check)) None s
          = Some (Fall, ?s5)"
          by simp
        note r = run_through [OF b p]
        show ?thesis
        proof (cases "exec ora n ?loop ?s5")
          case None
          then have l: "exec_list ora n [?loop] None ?s5 = None" by (simp add: exec_list_single)
          from r exec_append_None [OF l] have "run ora n g s = None" by simp
          then show ?thesis using b p l by (rule settledI2)
        next
          case (Some a)
          obtain ex1 s6 where a: "a = (ex1, s6)" by (cases a)
          from Some a have lp: "exec ora n ?loop ?s5 = Some (ex1, s6)" by simp
          from proxy_get_loop_shape [OF ok names lp] obtain fevs r1 r2 where
            fe: "fragment_events fevs"
            and alt: "(ex1 = Fall \<and> trace s6 = trace ?s5 @ fevs \<and> store s6 ''*value'' \<noteq> 0
                 \<and> (\<forall>var \<in> set outputs. store s6 (''*'' @ arg_name var) = store s6 (vname var)))
              \<or> (ex1 = Ret (-1)
                  \<and> trace s6 = trace ?s5 @ fevs @ [ev_unref ''reply'' r1, ev_reply_invalid r2])"
            by blast
          from alt show ?thesis
          proof (elim disjE conjE)
            assume e: "ex1 = Fall" and t: "trace s6 = trace ?s5 @ fevs"
            from lp e have "exec_list ora n [?loop] None ?s5 = Some (Fall, s6)"
              by (simp add: exec_list_single)
            from r exec_append_Fall [OF this]
            have "run ora n g s = Some (Ret 0, called s6 [ev_unref ''reply'' (answer ora s6 0)])"
              by (simp add: Let_def run_defs ev_defs)
            then show ?thesis
              by (rule settledI1)
                (use built(2,3) reply(3) t fe in
                   \<open>simp add: ev_defs quiet_containers fragment_events_containers\<close>,
                 use built(2,3) reply(3) t fe in
                   \<open>simp add: ev_defs quiet_containers fragment_events_containers\<close>)
          next
            assume e: "ex1 = Ret (-1)"
              and t: "trace s6 = trace ?s5 @ fevs @ [ev_unref ''reply'' r1, ev_reply_invalid r2]"
            from lp e have "exec_list ora n [?loop] None ?s5 = Some (Ret (-1), s6)"
              by (simp add: exec_list_single)
            from r exec_append_Ret [OF this]
            have "run ora n g s = Some (Ret (-1), s6)" by simp
            then show ?thesis
              by (rule settledI1)
                (use built(2,3) reply(3) t fe in
                   \<open>simp add: ev_defs quiet_containers fragment_events_containers\<close>,
                 use built(2,3) reply(3) t fe in
                   \<open>simp add: ev_defs quiet_containers fragment_events_containers\<close>)
          qed
        qed
      qed
    qed
  qed
qed

subsection \<open>The stubs at run time\<close>

text \<open>
  Claim C7. The function emitted by \<^verbatim>\<open>property_proxy_get_sync_function\<close> ends with a loop
  around the demarshalling fragment and the copies into the slots of the caller. The
  recovery code given to the fragment for a failed allocation sets the slot \<^verbatim>\<open>*value\<close> to
  null and jumps to the label that ends the body of the loop; a pass in which the
  fragment runs it is followed by another pass. A pass that completes leaves the loop
  exactly when \<^verbatim>\<open>*value\<close> is not null, and is followed by another pass otherwise.
\<close>

theorem proxy_get_retry_loop:
  assumes gen: "property_proxy_get_sync_function t mem interface_name property nm protos = Inr g"
  shows "\<exists>block outputs locals pre.
           demarshal t (chars (type property)) ''parent'' ''variter'' ''local''
              proxy_get_oom_error_code reply_invalid = Some (block, outputs, locals)
           \<and> body (code g) = pre @ [proxy_get_loop block outputs,
                 SExpr (ECall ''dbus_message_unref'' [Arg ''reply'']), SReturn 0]
           \<and> proxy_get_loop block outputs
               = SDoWhile (block @ map copy_out outputs @ [SLabel ''enomem''])
                   (ENot (EVar ''*value''))
           \<and> (\<forall>ora n s. exec_list ora n proxy_get_oom_error_code None s
                 = Some (Jump ''enomem'', s\<lparr>store := (store s)(''*value'' := 0)\<rparr>))
           \<and> (\<forall>ora n s s1.
                 exec_list ora n block None s = exec_list ora n proxy_get_oom_error_code None s1 \<longrightarrow>
                 exec ora (Suc n) (proxy_get_loop block outputs) s
                   = exec ora n (proxy_get_loop block outputs)
                       (s1\<lparr>store := (store s1)(''*value'' := 0)\<rparr>))
           \<and> (\<forall>ora n s s1.
                 exec_list ora n block None s = Some (Fall, s1) \<longrightarrow>
                 exec ora (Suc n) (proxy_get_loop block outputs) s
                   = (if copy_store outputs (store s1) ''*value'' = 0
                      then exec ora n (proxy_get_loop block outputs)
                             (s1\<lparr>store := copy_store outputs (store s1)\<rparr>)
                      else Some (Fall, s1\<lparr>store := copy_store outputs (store s1)\<rparr>)))"
proof -
  from gen obtain block outputs locals where
    d: "demarshal t (chars (type property)) ''parent'' ''variter'' ''local''
              proxy_get_oom_error_code reply_invalid = Some (block, outputs, locals)"
    by (auto simp: property_proxy_get_sync_function_def split: if_splits option.splits)
  from gen d have b: "body (code g)
      = (construct_call ''Get'' interface_name (chars (name property)) @ send_and_wait
          @ proxy_get_reply_check)
        @ [proxy_get_loop block outputs,
           SExpr (ECall ''dbus_message_unref'' [Arg ''reply'']), SReturn 0]"
    by (auto simp: property_proxy_get_sync_function_def Let_def split: if_splits option.splits)
  have l: "proxy_get_loop block outputs
      = SDoWhile (block @ map copy_out outputs @ [SLabel ''enomem'']) (ENot (EVar ''*value''))"
    by (simp add: proxy_get_loop_def)
  from d b l show ?thesis
    by - (rule exI [of _ block], rule exI [of _ outputs], rule exI [of _ locals],
        rule exI [of _ "construct_call ''Get'' interface_name (chars (name property))
          @ send_and_wait @ proxy_get_reply_check"],
        intro conjI allI impI, assumption, assumption, assumption,
        rule proxy_get_oom_jumps, erule proxy_get_loop_retry, erule proxy_get_loop_exit)
qed

theorem proxy_get_retry_loop_witness:
  "\<exists>g block outputs locals s'.
      property_proxy_get_sync_function tool_s True ''com.netsplit.Nih.Test'' my_property
        ''my_property_get_sync'' [] = Inr g
      \<and> demarshal tool_s ''s'' ''parent'' ''variter'' ''local'' proxy_get_oom_error_code
            reply_invalid = Some (block, outputs, locals)
      \<and> exec (answers [115, 1, 0, 115, 1, 7, 1]) 2 (proxy_get_loop block outputs) state0
          = Some (Fall, s')
      \<and> store s' ''*value'' = 7 \<and> length (trace s') = 7"
proof -
  let ?ora = "answers [115, 1, 0, 115, 1, 7, 1]"
  obtain g where g: "property_proxy_get_sync_function tool_s True ''com.netsplit.Nih.Test''
      my_property ''my_property_get_sync'' [] = Inr g"
    by (simp add: property_proxy_get_sync_function_def tool_s_def demarshal_s_def my_property_def
        type_var_new_def Let_def)
  from proxy_get_retry_loop [OF g] obtain block outputs locals where
    d: "demarshal tool_s (chars (type my_property)) ''parent'' ''variter'' ''local''
              proxy_get_oom_error_code reply_invalid = Some (block, outputs, locals)"
    and retry: "\<forall>ora n s s1.
                 exec_list ora n block None s = exec_list ora n proxy_get_oom_error_code None s1 \<longrightarrow>
                 exec ora (Suc n) (proxy_get_loop block outputs) s
                   = exec ora n (proxy_get_loop block outputs)
                       (s1\<lparr>store := (store s1)(''*value'' := 0)\<rparr>)"
    by blast
  from d have d': "demarshal tool_s ''s'' ''parent'' ''variter'' ''local'' proxy_get_oom_error_code
            reply_invalid = Some (block, outputs, locals)"
    by (simp add: my_property_def)
  then have bo: "block = [SIf (ENe (ECall ''dbus_message_iter_get_arg_type'' [Arg ''&variter''])
                        (ENum DBUS_TYPE_STRING)) reply_invalid [],
               SExpr (ECall ''dbus_message_iter_get_basic'' [Arg ''&variter'', Arg ''&local_dbus'']),
               SAssign ''local'' (ECall ''nih_strdup'' [Arg ''parent'', Arg ''local_dbus'']),
               SIf (ENot (EVar ''local'')) proxy_get_oom_error_code [],
               SExpr (ECall ''dbus_message_iter_next'' [Arg ''&variter''])]"
    "outputs = [type_var_new ''char *'' ''local'']"
    by (auto simp: tool_s_def demarshal_s_def)
  define s1 where "s1 = \<lparr>store = (\<lambda>_. 0)(''local'' := 0),
      trace = [(''dbus_message_iter_get_arg_type'', [Arg ''&variter''], 115),
               (''dbus_message_iter_get_basic'', [Arg ''&variter'', Arg ''&local_dbus''], 1),
               (''nih_strdup'', [Arg ''parent'', Arg ''local_dbus''], 0)]\<rparr>"
  have first: "exec_list ?ora 1 block None state0
      = exec_list ?ora 1 proxy_get_oom_error_code None s1"
    by (simp add: bo s1_def state0_def answers_def Let_def DBUS_TYPE_STRING_def
        proxy_get_oom_error_code_def reply_invalid_def nih_return_error_def)
  from retry [rule_format, OF first]
  have again: "exec ?ora 2 (proxy_get_loop block outputs) state0
      = exec ?ora 1 (proxy_get_loop block outputs) (s1\<lparr>store := (store s1)(''*value'' := 0)\<rparr>)"
    by (simp add: numeral_2_eq_2)
  have "\<exists>s'. exec ?ora 1 (proxy_get_loop block outputs) (s1\<lparr>store := (store s1)(''*value'' := 0)\<rparr>)
      = Some (Fall, s') \<and> store s' ''*value'' = 7 \<and> length (trace s') = 7"
    by (simp add: bo s1_def answers_def Let_def DBUS_TYPE_STRING_def proxy_get_loop_def
        proxy_get_oom_error_code_def reply_invalid_def nih_return_error_def copy_out_def
        arg_name_def type_var_new_def)
  with again g d' show ?thesis by auto
qed



text \<open>
  Claim C4. In both client functions the statements that build the method call are
  followed by the send. Whenever a run reaches the send and the send returns no reply,
  the function releases the method call, asks whether the error is the no memory error
  of D-Bus, raises the local no memory error if so and otherwise the error carrying the
  remote name and message, frees the error, and returns failure: the run ends there,
  with exactly these calls after the send.
\<close>

theorem reply_error_translated:
  "(property_proxy_get_sync_function t mem interface_name property nm protos = Inr g \<longrightarrow>
      (\<exists>rest. body (code g)
          = construct_call ''Get'' interface_name (chars (name property)) @ send_and_wait @ rest)
      \<and> (\<forall>ora n s s1.
            exec_list ora n (construct_call ''Get'' interface_name (chars (name property))) None s
              = Some (Fall, s1) \<longrightarrow>
            answer ora s1 1 = 0 \<longrightarrow>
            (\<exists>s'. run ora n g s = Some (Ret (-1), s')
               \<and> store s' = (store s1)(''reply'' := 0)
               \<and> trace s' = trace s1 @ [ev_error_init (answer ora s1 0), ev_send 0,
                     ev_unref ''method_call'' (answer ora s1 2), ev_has_name (answer ora s1 3),
                     (if answer ora s1 3 \<noteq> 0 then ev_no_memory (answer ora s1 4)
                      else ev_remote_error (answer ora s1 4)),
                     ev_error_free (answer ora s1 5)])))
   \<and> (property_proxy_set_sync_function t mem interface_name property nm protos = Inr g \<longrightarrow>
      (\<exists>block inputs locals rest.
          marshal t (chars (type property)) ''variter'' ''value'' proxy_set_oom_error_code
            = Some (block, inputs, locals)
          \<and> body (code g)
              = proxy_set_marshal_block interface_name (chars (name property))
                  (chars (type property)) block @ send_and_wait @ rest
          \<and> (\<forall>ora n s s1.
                exec_list ora n (proxy_set_marshal_block interface_name (chars (name property))
                    (chars (type property)) block) None s = Some (Fall, s1) \<longrightarrow>
                answer ora s1 1 = 0 \<longrightarrow>
                (\<exists>s'. run ora n g s = Some (Ret (-1), s')
                   \<and> store s' = (store s1)(''reply'' := 0)
                   \<and> trace s' = trace s1 @ [ev_error_init (answer ora s1 0), ev_send 0,
                         ev_unref ''method_call'' (answer ora s1 2),
                         ev_has_name (answer ora s1 3),
                         (if answer ora s1 3 \<noteq> 0 then ev_no_memory (answer ora s1 4)
                          else ev_remote_error (answer ora s1 4)),
                         ev_error_free (answer ora s1 5)]))))"
proof (intro conjI impI)
  assume gen: "property_proxy_get_sync_function t mem interface_name property nm protos = Inr g"
  then obtain block outputs locals where
    d: "demarshal t (chars (type property)) ''parent'' ''variter'' ''local''
              proxy_get_oom_error_code reply_invalid = Some (block, outputs, locals)"
    by (auto simp: property_proxy_get_sync_function_def split: if_splits option.splits)
  from gen d have b: "body (code g)
      = construct_call ''Get'' interface_name (chars (name property)) @ send_and_wait
        @ (proxy_get_reply_check @ [proxy_get_loop block outputs,
             SExpr (ECall ''dbus_message_unref'' [Arg ''reply'']), SReturn 0])"
    by (auto simp: property_proxy_get_sync_function_def Let_def split: if_splits option.splits)
  then show "\<exists>rest. body (code g)
          = construct_call ''Get'' interface_name (chars (name property)) @ send_and_wait @ rest"
    by (rule exI)
  show "\<forall>ora n s s1.
            exec_list ora n (construct_call ''Get'' interface_name (chars (name property))) None s
              = Some (Fall, s1) \<longrightarrow>
            answer ora s1 1 = 0 \<longrightarrow>
            (\<exists>s'. run ora n g s = Some (Ret (-1), s')
               \<and> store s' = (store s1)(''reply'' := 0)
               \<and> trace s' = trace s1 @ [ev_error_init (answer ora s1 0), ev_send 0,
                     ev_unref ''method_call'' (answer ora s1 2), ev_has_name (answer ora s1 3),
                     (if answer ora s1 3 \<noteq> 0 then ev_no_memory (answer ora s1 4)
                      else ev_remote_error (answer ora s1 4)),
                     ev_error_free (answer ora s1 5)])"
    by (intro allI impI, rule send_fails_run [OF b])
next
  assume gen: "property_proxy_set_sync_function t mem interface_name property nm protos = Inr g"
  then obtain block inputs locals where
    m: "marshal t (chars (type property)) ''variter'' ''value'' proxy_set_oom_error_code
          = Some (block, inputs, locals)"
    by (auto simp: property_proxy_set_sync_function_def split: if_splits option.splits)
  from gen m have b: "body (code g)
      = proxy_set_marshal_block interface_name (chars (name property))
                  (chars (type property)) block @ send_and_wait
        @ (proxy_set_reply_check @ [SReturn 0])"
    by (auto simp: property_proxy_set_sync_function_def Let_def split: if_splits option.splits)
  have q: "\<forall>ora n s s1.
                exec_list ora n (proxy_set_marshal_block interface_name (chars (name property))
                    (chars (type property)) block) None s = Some (Fall, s1) \<longrightarrow>
                answer ora s1 1 = 0 \<longrightarrow>
                (\<exists>s'. run ora n g s = Some (Ret (-1), s')
                   \<and> store s' = (store s1)(''reply'' := 0)
                   \<and> trace s' = trace s1 @ [ev_error_init (answer ora s1 0), ev_send 0,
                         ev_unref ''method_call'' (answer ora s1 2),
                         ev_has_name (answer ora s1 3),
                         (if answer ora s1 3 \<noteq> 0 then ev_no_memory (answer ora s1 4)
                          else ev_remote_error (answer ora s1 4)),
                         ev_error_free (answer ora s1 5)])"
    by (intro allI impI, rule send_fails_run [OF b])
  from m b q show "\<exists>block inputs locals rest.
          marshal t (chars (type property)) ''variter'' ''value'' proxy_set_oom_error_code
            = Some (block, inputs, locals)
          \<and> body (code g)
              = proxy_set_marshal_block interface_name (chars (name property))
                  (chars (type property)) block @ send_and_wait @ rest
          \<and> (\<forall>ora n s s1.
                exec_list ora n (proxy_set_marshal_block interface_name (chars (name property))
                    (chars (type property)) block) None s = Some (Fall, s1) \<longrightarrow>
                answer ora s1 1 = 0 \<longrightarrow>
                (\<exists>s'. run ora n g s = Some (Ret (-1), s')
                   \<and> store s' = (store s1)(''reply'' := 0)
                   \<and> trace s' = trace s1 @ [ev_error_init (answer ora s1 0), ev_send 0,
                         ev_unref ''method_call'' (answer ora s1 2),
                         ev_has_name (answer ora s1 3),
                         (if answer ora s1 3 \<noteq> 0 then ev_no_memory (answer ora s1 4)
                          else ev_remote_error (answer ora s1 4)),
                         ev_error_free (answer ora s1 5)]))"
    by - (rule exI [of _ block], rule exI [of _ inputs], rule exI [of _ locals],
        rule exI [of _ "proxy_set_reply_check @ [SReturn 0]"], intro conjI, assumption+)
qed

theorem reply_error_translated_witness:
  "(\<exists>g s'. property_proxy_set_sync_function tool_s True ''com.netsplit.Nih.Test'' my_property
              ''my_property_set_sync'' [] = Inr g
      \<and> run (answers [1, 1, 1, 1, 1, 1, 1, 1, 0, 1, 0]) 0 g state0 = Some (Ret (-1), s')
      \<and> drop 7 (trace s') = [ev_error_init 1, ev_send 0, ev_unref ''method_call'' 1,
            ev_has_name 0, ev_remote_error 1, ev_error_free 1])
   \<and> (\<exists>g s'. property_proxy_get_sync_function tool_s True ''com.netsplit.Nih.Test'' my_property
              ''my_property_get_sync'' [] = Inr g
      \<and> run (answers [1, 1, 1, 1, 1, 0, 1, 1]) 0 g state0 = Some (Ret (-1), s')
      \<and> drop 4 (trace s') = [ev_error_init 1, ev_send 0, ev_unref ''method_call'' 1,
            ev_has_name 1, ev_no_memory 1, ev_error_free 1])"
proof
  let ?ora = "answers [1, 1, 1, 1, 1, 1, 1, 1, 0, 1, 0]"
  obtain g where g: "property_proxy_set_sync_function tool_s True ''com.netsplit.Nih.Test''
      my_property ''my_property_set_sync'' [] = Inr g"
    by (simp add: property_proxy_set_sync_function_def tool_s_def marshal_s_def my_property_def
        Let_def)
  from reply_error_translated [THEN conjunct2, rule_format, OF g]
  obtain block inputs locals where
    m: "marshal tool_s (chars (type my_property)) ''variter'' ''value'' proxy_set_oom_error_code
          = Some (block, inputs, locals)"
    and q: "\<forall>ora n s s1.
                exec_list ora n (proxy_set_marshal_block ''com.netsplit.Nih.Test''
                    (chars (name my_property)) (chars (type my_property)) block) None s
                  = Some (Fall, s1) \<longrightarrow>
                answer ora s1 1 = 0 \<longrightarrow>
                (\<exists>s'. run ora n g s = Some (Ret (-1), s')
                   \<and> store s' = (store s1)(''reply'' := 0)
                   \<and> trace s' = trace s1 @ [ev_error_init (answer ora s1 0), ev_send 0,
                         ev_unref ''method_call'' (answer ora s1 2),
                         ev_has_name (answer ora s1 3),
                         (if answer ora s1 3 \<noteq> 0 then ev_no_memory (answer ora s1 4)
                          else ev_remote_error (answer ora s1 4)),
                         ev_error_free (answer ora s1 5)])"
    by blast
  from m have "\<exists>s1. exec_list ?ora 0 (proxy_set_marshal_block ''com.netsplit.Nih.Test''
                    (chars (name my_property)) (chars (type my_property)) block) None state0
                  = Some (Fall, s1) \<and> length (trace s1) = 7"
    by (auto simp: tool_s_def marshal_s_def my_property_def proxy_set_marshal_block_def
        construct_call_def proxy_set_oom_error_code_def nih_return_no_memory_error_def
        Let_def answers_def state0_def)
  then obtain s1 where
    p: "exec_list ?ora 0 (proxy_set_marshal_block ''com.netsplit.Nih.Test''
                    (chars (name my_property)) (chars (type my_property)) block) None state0
                  = Some (Fall, s1)"
    and l: "length (trace s1) = 7"
    by blast
  have a: "answer ?ora s1 1 = 0" by (simp add: answer_def answers_def l)
  from q [rule_format, OF p a] obtain s' where
    r: "run ?ora 0 g state0 = Some (Ret (-1), s')"
    and t: "trace s' = trace s1 @ [ev_error_init (answer ?ora s1 0), ev_send 0,
                         ev_unref ''method_call'' (answer ?ora s1 2),
                         ev_has_name (answer ?ora s1 3),
                         (if answer ?ora s1 3 \<noteq> 0 then ev_no_memory (answer ?ora s1 4)
                          else ev_remote_error (answer ?ora s1 4)),
                         ev_error_free (answer ?ora s1 5)]"
    by blast
  from t l have "drop 7 (trace s') = [ev_error_init 1, ev_send 0, ev_unref ''method_call'' 1,
            ev_has_name 0, ev_remote_error 1, ev_error_free 1]"
    by (simp add: answer_def answers_def)
  with g r show "\<exists>g s'. property_proxy_set_sync_function tool_s True ''com.netsplit.Nih.Test''
              my_property ''my_property_set_sync'' [] = Inr g
      \<and> run ?ora 0 g state0 = Some (Ret (-1), s')
      \<and> drop 7 (trace s') = [ev_error_init 1, ev_send 0, ev_unref ''method_call'' 1,
            ev_has_name 0, ev_remote_error 1, ev_error_free 1]"
    by blast
next
  let ?ora = "answers [1, 1, 1, 1, 1, 0, 1, 1]"
  obtain g where g: "property_proxy_get_sync_function tool_s True ''com.netsplit.Nih.Test''
      my_property ''my_property_get_sync'' [] = Inr g"
    by (simp add: property_proxy_get_sync_function_def tool_s_def demarshal_s_def my_property_def
        type_var_new_def Let_def)
  note q = reply_error_translated [THEN conjunct1, rule_format, OF g, THEN conjunct2, rule_format]
  have "\<exists>s1. exec_list ?ora 0 (construct_call ''Get'' ''com.netsplit.Nih.Test''
                    (chars (name my_property))) None state0
                  = Some (Fall, s1) \<and> length (trace s1) = 4"
    by (auto simp: construct_call_def nih_return_no_memory_error_def
        Let_def answers_def state0_def)
  then obtain s1 where
    p: "exec_list ?ora 0 (construct_call ''Get'' ''com.netsplit.Nih.Test''
                    (chars (name my_property))) None state0 = Some (Fall, s1)"
    and l: "length (trace s1) = 4"
    by blast
  have a: "answer ?ora s1 1 = 0" by (simp add: answer_def answers_def l)
  from q [OF p a] obtain s' where
    r: "run ?ora 0 g state0 = Some (Ret (-1), s')"
    and t: "trace s' = trace s1 @ [ev_error_init (answer ?ora s1 0), ev_send 0,
                         ev_unref ''method_call'' (answer ?ora s1 2),
                         ev_has_name (answer ?ora s1 3),
                         (if answer ?ora s1 3 \<noteq> 0 then ev_no_memory (answer ?ora s1 4)
                          else ev_remote_error (answer ?ora s1 4)),
                         ev_error_free (answer ?ora s1 5)]"
    by blast
  from t l have "drop 4 (trace s') = [ev_error_init 1, ev_send 0, ev_unref ''method_call'' 1,
            ev_has_name 1, ev_no_memory 1, ev_error_free 1]"
    by (simp add: answer_def answers_def)
  with g r show "\<exists>g s'. property_proxy_get_sync_function tool_s True ''com.netsplit.Nih.Test''
              my_property ''my_property_get_sync'' [] = Inr g
      \<and> run ?ora 0 g state0 = Some (Ret (-1), s')
      \<and> drop 4 (trace s') = [ev_error_init 1, ev_send 0, ev_unref ''method_call'' 1,
            ev_has_name 1, ev_no_memory 1, ev_error_free 1]"
    by blast
qed

text \<open>
  Claim C1, as worded, fails where the open itself fails: the stub of
  \<^verbatim>\<open>property_object_get_function\<close> returns at once when
  \<^verbatim>\<open>dbus_message_iter_open_container\<close> returns false, so that run has one open call on
  the iterator and no close call.
\<close>

theorem open_fails_unmatched:
  "\<exists>g s'. property_object_get_function tool_s True my_property ''MyProperty_get''
              ''my_property_get'' [] [] = Inr g
     \<and> run (answers [0, 0]) 0 g state0 = Some (Ret (-1), s')
     \<and> calls_of ''dbus_message_iter_open_container'' (trace s') = [ev_open ''iter'' ''s'' 0]
     \<and> calls_of ''dbus_message_iter_close_container'' (trace s') = []
     \<and> net_calls (Arg ''iter'') (trace s') = 1"
proof -
  obtain g where g: "property_object_get_function tool_s True my_property ''MyProperty_get''
              ''my_property_get'' [] [] = Inr g"
    by (simp add: property_object_get_function_def tool_s_def marshal_s_def my_property_def
        Let_def)
  have "\<exists>s'. run (answers [0, 0]) 0 g state0 = Some (Ret (-1), s')
      \<and> calls_of ''dbus_message_iter_open_container'' (trace s') = [ev_open ''iter'' ''s'' 0]
      \<and> calls_of ''dbus_message_iter_close_container'' (trace s') = []
      \<and> net_calls (Arg ''iter'') (trace s') = 1"
    using g
    by (auto simp: property_object_get_function_def tool_s_def marshal_s_def my_property_def
        Let_def run_def object_get_code_block_def object_get_oom_error_code_def
        answers_def state0_def calls_of_def net_calls_def type_var_new_def ev_defs)
  with g show ?thesis by blast
qed

text \<open>
  Claim C1, amended. Every run of the four stubs returns unless its marshalling or
  demarshalling fragment, or the retry loop of the client getter, is out of fuel; and
  when it returns the containers are closed as they were opened: every call of
  \<^verbatim>\<open>dbus_message_iter_open_container\<close> that succeeds is followed, before the stub
  returns, by one call of \<^verbatim>\<open>dbus_message_iter_close_container\<close> on the same iterator and
  sub-iterator, there is no other close call, and on every iterator the calls that
  opened less the calls that closed are zero.
\<close>

theorem containers_closed:
  assumes mc: "marshal_contract t" and dc: "demarshal_contract t"
    and nf: "\<not> fragment_call handler_name"
    and gen: "property_object_get_function t mem property nm handler_name protos hs = Inr g
              \<or> property_object_set_function t mem property nm handler_name protos hs = Inr g
              \<or> property_proxy_get_sync_function t mem interface_name property nm protos = Inr g
              \<or> property_proxy_set_sync_function t mem interface_name property nm protos = Inr g"
  shows "(\<exists>ex s' evs. run ora n g s = Some (ex, s') \<and> trace s' = trace s @ evs
            \<and> (\<forall>st. containers evs st = Some st) \<and> (\<forall>it. net_opened it evs = 0))
         \<or> (run ora n g s = None
            \<and> (\<exists>core pre post s1 block vars locals.
                  body (code g) = pre @ core @ post
                  \<and> exec_list ora n pre None s = Some (Fall, s1)
                  \<and> exec_list ora n core None s1 = None
                  \<and> ((property_object_get_function t mem property nm handler_name protos hs = Inr g
                       \<and> marshal t (chars (type property)) ''variter'' ''value''
                            object_get_oom_error_code = Some (block, vars, locals)
                       \<and> core = block)
                     \<or> (property_object_set_function t mem property nm handler_name protos hs = Inr g
                       \<and> demarshal t (chars (type property)) ''message'' ''variter'' ''value''
                            object_set_oom_error_code (invalid_args_raise (chars (name property)))
                            = Some (block, vars, locals)
                       \<and> core = block)
                     \<or> (property_proxy_get_sync_function t mem interface_name property nm protos = Inr g
                       \<and> demarshal t (chars (type property)) ''parent'' ''variter'' ''local''
                            proxy_get_oom_error_code reply_invalid = Some (block, vars, locals)
                       \<and> core = [proxy_get_loop block vars])
                     \<or> (property_proxy_set_sync_function t mem interface_name property nm protos = Inr g
                       \<and> marshal t (chars (type property)) ''variter'' ''value''
                            proxy_set_oom_error_code = Some (block, vars, locals)
                       \<and> core = block))))"
    (is "?returns \<or> ?stuck")
proof -
  have ret: "?returns"
    if "\<exists>ex s' evs. run ora n g s = Some (ex, s') \<and> trace s' = trace s @ evs
            \<and> (\<forall>st. containers evs st = Some st)"
  proof -
    from that obtain ex s' evs where r: "run ora n g s = Some (ex, s')"
      and t: "trace s' = trace s @ evs" and c: "\<forall>st. containers evs st = Some st"
      by blast
    from c have "\<forall>it. net_opened it evs = 0"
      using containers_net_zero [of evs "[]"] by blast
    with r t c show ?thesis by blast
  qed
  from gen consider
    (object_get) "property_object_get_function t mem property nm handler_name protos hs = Inr g"
    | (object_set) "property_object_set_function t mem property nm handler_name protos hs = Inr g"
    | (proxy_get) "property_proxy_get_sync_function t mem interface_name property nm protos = Inr g"
    | (proxy_set) "property_proxy_set_sync_function t mem interface_name property nm protos = Inr g"
    by (elim disjE)
  then show ?thesis
  proof cases
    case object_get
    then obtain block inputs locals where
      m: "marshal t (chars (type property)) ''variter'' ''value'' object_get_oom_error_code
          = Some (block, inputs, locals)"
      by (auto simp: property_object_get_function_def split: if_splits option.splits)
    from object_get_settled [OF mc m object_get nf, of ora n s] show ?thesis
    proof (elim disjE conjE exE)
      fix ex s' evs
      assume "run ora n g s = Some (ex, s')" "trace s' = trace s @ evs"
        "\<forall>st. containers evs st = Some st"
      then have ?returns by (intro ret) blast
      then show ?thesis ..
    next
      fix pre post s1
      assume "run ora n g s = None" "body (code g) = pre @ block @ post"
        "exec_list ora n pre None s = Some (Fall, s1)" "exec_list ora n block None s1 = None"
      with object_get m have ?stuck by blast
      then show ?thesis ..
    qed
  next
    case object_set
    then obtain block outputs locals where
      d: "demarshal t (chars (type property)) ''message'' ''variter'' ''value''
              object_set_oom_error_code (invalid_args_raise (chars (name property)))
            = Some (block, outputs, locals)"
      by (auto simp: property_object_set_function_def split: if_splits option.splits)
    from object_set_settled [OF dc d object_set nf, of ora n s] show ?thesis
    proof (elim disjE conjE exE)
      fix ex s' evs
      assume "run ora n g s = Some (ex, s')" "trace s' = trace s @ evs"
        "\<forall>st. containers evs st = Some st"
      then have ?returns by (intro ret) blast
      then show ?thesis ..
    next
      fix pre post s1
      assume "run ora n g s = None" "body (code g) = pre @ block @ post"
        "exec_list ora n pre None s = Some (Fall, s1)" "exec_list ora n block None s1 = None"
      with object_set d have ?stuck by blast
      then show ?thesis ..
    qed
  next
    case proxy_get
    then obtain block outputs locals where
      d: "demarshal t (chars (type property)) ''parent'' ''variter'' ''local''
              proxy_get_oom_error_code reply_invalid = Some (block, outputs, locals)"
      by (auto simp: property_proxy_get_sync_function_def split: if_splits option.splits)
    from proxy_get_settled [OF dc d proxy_get, of ora n s] show ?thesis
    proof (elim disjE conjE exE)
      fix ex s' evs
      assume "run ora n g s = Some (ex, s')" "trace s' = trace s @ evs"
        "\<forall>st. containers evs st = Some st"
      then have ?returns by (intro ret) blast
      then show ?thesis ..
    next
      fix pre post s1
      assume "run ora n g s = None"
        "body (code g) = pre @ [proxy_get_loop block outputs] @ post"
        "exec_list ora n pre None s = Some (Fall, s1)"
        "exec_list ora n [proxy_get_loop block outputs] None s1 = None"
      with proxy_get d have ?stuck by blast
      then show ?thesis ..
    qed
  next
    case proxy_set
    then obtain block inputs locals where
      m: "marshal t (chars (type property)) ''variter'' ''value'' proxy_set_oom_error_code
          = Some (block, inputs, locals)"
      by (auto simp: property_proxy_set_sync_function_def split: if_splits option.splits)
    from proxy_set_settled [OF mc m proxy_set, of ora n s] show ?thesis
    proof (elim disjE conjE exE)
      fix ex s' evs
      assume "run ora n g s = Some (ex, s')" "trace s' = trace s @ evs"
        "\<forall>st. containers evs st = Some st"
      then have ?returns by (intro ret) blast
      then show ?thesis ..
    next
      fix pre post s1
      assume "run ora n g s = None" "body (code g) = pre @ block @ post"
        "exec_list ora n pre None s = Some (Fall, s1)" "exec_list ora n block None s1 = None"
      with proxy_set m have ?stuck by blast
      then show ?thesis ..
    qed
  qed
qed

theorem containers_closed_witness:
  "\<exists>g. property_object_get_function tool_s True my_property ''MyProperty_get''
              ''my_property_get'' [] [] = Inr g
     \<and> (\<exists>s'. run (answers [0, 1, 1, 1]) 0 g state0 = Some (Ret 0, s')
          \<and> calls_of ''dbus_message_iter_open_container'' (trace s') = [ev_open ''iter'' ''s'' 1]
          \<and> calls_of ''dbus_message_iter_close_container'' (trace s') = [ev_close ''iter'' 1]
          \<and> containers (trace s') [] = Some []
          \<and> net_opened (Arg ''iter'') (trace s') = 0)
     \<and> (\<exists>s'. run (answers [0, 1, 0, 1]) 0 g state0 = Some (Ret (-1), s')
          \<and> calls_of ''dbus_message_iter_open_container'' (trace s') = [ev_open ''iter'' ''s'' 1]
          \<and> calls_of ''dbus_message_iter_close_container'' (trace s') = [ev_close ''iter'' 1])
     \<and> (\<exists>s'. run (answers [0, 0]) 0 g state0 = Some (Ret (-1), s')
          \<and> net_opened (Arg ''iter'') (trace s') = 0)"
proof -
  obtain g where g: "property_object_get_function tool_s True my_property ''MyProperty_get''
              ''my_property_get'' [] [] = Inr g"
    by (simp add: property_object_get_function_def tool_s_def marshal_s_def my_property_def
        Let_def)
  note defs = property_object_get_function_def tool_s_def marshal_s_def my_property_def
        Let_def run_def object_get_code_block_def object_get_oom_error_code_def
        answers_def state0_def calls_of_def type_var_new_def net_opened_def ev_defs
  have "\<exists>s'. run (answers [0, 1, 1, 1]) 0 g state0 = Some (Ret 0, s')
      \<and> calls_of ''dbus_message_iter_open_container'' (trace s') = [ev_open ''iter'' ''s'' 1]
      \<and> calls_of ''dbus_message_iter_close_container'' (trace s') = [ev_close ''iter'' 1]"
    using g by (auto simp: defs)
  then obtain s' where
    r: "run (answers [0, 1, 1, 1]) 0 g state0 = Some (Ret 0, s')"
    and c: "calls_of ''dbus_message_iter_open_container'' (trace s') = [ev_open ''iter'' ''s'' 1]"
      "calls_of ''dbus_message_iter_close_container'' (trace s') = [ev_close ''iter'' 1]"
    by blast
  have nf: "\<not> fragment_call ''my_property_get''" by (simp add: fragment_call_def)
  from containers_closed [OF marshal_contract_s demarshal_contract_s nf disjI1 [OF g],
      where ora = "answers [0, 1, 1, 1]" and n = 0 and s = state0] r
  have "containers (trace s') [] = Some [] \<and> net_opened (Arg ''iter'') (trace s') = 0"
    by (auto simp: state0_def)
  with r c have a: "\<exists>s'. run (answers [0, 1, 1, 1]) 0 g state0 = Some (Ret 0, s')
          \<and> calls_of ''dbus_message_iter_open_container'' (trace s') = [ev_open ''iter'' ''s'' 1]
          \<and> calls_of ''dbus_message_iter_close_container'' (trace s') = [ev_close ''iter'' 1]
          \<and> containers (trace s') [] = Some []
          \<and> net_opened (Arg ''iter'') (trace s') = 0"
    by blast
  have b: "\<exists>s'. run (answers [0, 1, 0, 1]) 0 g state0 = Some (Ret (-1), s')
          \<and> calls_of ''dbus_message_iter_open_container'' (trace s') = [ev_open ''iter'' ''s'' 1]
          \<and> calls_of ''dbus_message_iter_close_container'' (trace s') = [ev_close ''iter'' 1]"
    using g by (auto simp: defs)
  have c: "\<exists>s'. run (answers [0, 0]) 0 g state0 = Some (Ret (-1), s')
          \<and> net_opened (Arg ''iter'') (trace s') = 0"
    using g by (auto simp: defs)
  from g a b c show ?thesis by blast
qed

text \<open>
  Claim C2 fails on the code for a property whose value is zero. The loop of the
  function emitted by \<^verbatim>\<open>property_proxy_get_sync_function\<close> ends when \<^verbatim>\<open>*value\<close> is not
  null, so a reply that is well formed and holds the boolean false is demarshalled and
  stored, and then demarshalled again from the iterator that is past its only value:
  the type check of the second pass fails, the reply is released, the invalid arguments
  error is raised and the function returns failure. The same reply holding true is
  stored and the function succeeds.
\<close>

theorem proxy_get_false_reply:
  "\<exists>g s' s''. property_proxy_get_sync_function tool_b True ''com.netsplit.Nih.Test'' my_flag
              ''my_flag_get_sync'' [] = Inr g
     \<and> run (answers [1, 1, 1, 1, 1, 1, 1, 1, 118, 1, 1, 0, 98, 0, 1, 0]) 2 g state0
           = Some (Ret (-1), s')
     \<and> drop 8 (trace s') =
          [ev_arg_type ''&iter'' DBUS_TYPE_VARIANT, ev_recurse ''&iter'' 1, ev_next ''&iter'' 1,
           ev_arg_type ''&iter'' DBUS_TYPE_INVALID,
           (''dbus_message_iter_get_arg_type'', [Arg ''&variter''], DBUS_TYPE_BOOLEAN),
           (''dbus_message_iter_get_basic'', [Arg ''&variter'', Arg ''&local''], 0),
           (''dbus_message_iter_next'', [Arg ''&variter''], 1),
           (''dbus_message_iter_get_arg_type'', [Arg ''&variter''], DBUS_TYPE_INVALID),
           ev_unref ''reply'' 1, ev_reply_invalid 1]
     \<and> store s' ''*value'' = 0
     \<and> run (answers [1, 1, 1, 1, 1, 1, 1, 1, 118, 1, 1, 0, 98, 1, 1]) 2 g state0
           = Some (Ret 0, s'')
     \<and> store s'' ''*value'' = 1"
proof -
  obtain g where g: "property_proxy_get_sync_function tool_b True ''com.netsplit.Nih.Test''
      my_flag ''my_flag_get_sync'' [] = Inr g"
    by (simp add: property_proxy_get_sync_function_def tool_b_def demarshal_b_def my_flag_def
        type_var_new_def Let_def)
  note defs = property_proxy_get_sync_function_def tool_b_def demarshal_b_def my_flag_def
        type_var_new_def Let_def run_def construct_call_def send_and_wait_def
        reply_error_def proxy_get_reply_check_def proxy_get_oom_error_code_def reply_invalid_def
        proxy_get_loop_def copy_out_def arg_name_def
        nih_return_no_memory_error_def nih_return_error_def answers_def state0_def
        DBUS_TYPE_VARIANT_def DBUS_TYPE_BOOLEAN_def DBUS_TYPE_INVALID_def ev_defs
        numeral_2_eq_2
  have a: "\<exists>s'. run (answers [1, 1, 1, 1, 1, 1, 1, 1, 118, 1, 1, 0, 98, 0, 1, 0]) 2 g state0
           = Some (Ret (-1), s')
     \<and> drop 8 (trace s') =
          [ev_arg_type ''&iter'' DBUS_TYPE_VARIANT, ev_recurse ''&iter'' 1, ev_next ''&iter'' 1,
           ev_arg_type ''&iter'' DBUS_TYPE_INVALID,
           (''dbus_message_iter_get_arg_type'', [Arg ''&variter''], DBUS_TYPE_BOOLEAN),
           (''dbus_message_iter_get_basic'', [Arg ''&variter'', Arg ''&local''], 0),
           (''dbus_message_iter_next'', [Arg ''&variter''], 1),
           (''dbus_message_iter_get_arg_type'', [Arg ''&variter''], DBUS_TYPE_INVALID),
           ev_unref ''reply'' 1, ev_reply_invalid 1]
     \<and> store s' ''*value'' = 0"
    using g by (auto simp: defs)
  have b: "\<exists>s''. run (answers [1, 1, 1, 1, 1, 1, 1, 1, 118, 1, 1, 0, 98, 1, 1]) 2 g state0
           = Some (Ret 0, s'')
     \<and> store s'' ''*value'' = 1"
    using g by (auto simp: defs)
  from g a b show ?thesis by blast
qed

end
